theory Spec2Isabelle
  imports Main "HOL-Library.Product_Lexorder"
begin

section \<open>Unit model (engine/units.py)\<close>

text \<open>The enumeration \<open>UnitType\<close>; the integer value of each member is given by
  \<open>unit_value\<close> (\<open>NONE = 0\<close> up to \<open>BARON = 6\<close>).\<close>

datatype UnitType = NONE | TREE_PINE | TREE_PALM | PEASANT | SPEARMAN | KNIGHT | BARON

fun unit_value :: "UnitType \<Rightarrow> int" where
  "unit_value NONE = 0"
| "unit_value TREE_PINE = 1"
| "unit_value TREE_PALM = 2"
| "unit_value PEASANT = 3"
| "unit_value SPEARMAN = 4"
| "unit_value KNIGHT = 5"
| "unit_value BARON = 6"

text \<open>\<open>UnitType(n)\<close>: the member with value \<open>n\<close>; Python raises \<open>ValueError\<close> for any
  other integer, which is \<open>None\<close> here.\<close>

definition UnitType_of :: "int \<Rightarrow> UnitType option" where
  "UnitType_of n =
     (if n = 0 then Some NONE else if n = 1 then Some TREE_PINE
      else if n = 2 then Some TREE_PALM else if n = 3 then Some PEASANT
      else if n = 4 then Some SPEARMAN else if n = 5 then Some KNIGHT
      else if n = 6 then Some BARON else None)"

definition PEASANT_COST :: int where "PEASANT_COST = 10"
definition CASTLE_COST :: int where "CASTLE_COST = 15"
definition CAPITAL_DEFENSE :: int where "CAPITAL_DEFENSE = 1"
definition CASTLE_DEFENSE :: int where "CASTLE_DEFENSE = 2"

text \<open>\<open>UNIT_STATS\<close> has an entry for the four combat units only; every other unit type
  has power 0 and wage 0.\<close>

fun unit_power :: "UnitType \<Rightarrow> int" where
  "unit_power PEASANT = 1"
| "unit_power SPEARMAN = 2"
| "unit_power KNIGHT = 3"
| "unit_power BARON = 4"
| "unit_power _ = 0"

fun unit_wage :: "UnitType \<Rightarrow> int" where
  "unit_wage PEASANT = 2"
| "unit_wage SPEARMAN = 6"
| "unit_wage KNIGHT = 18"
| "unit_wage BARON = 54"
| "unit_wage _ = 0"

text \<open>\<open>combine_units\<close> returns Python's \<open>None\<close> when one of the two is no combat unit or
  when the summed power exceeds 4, and \<open>UnitType(combined_power + 2)\<close> otherwise.\<close>

definition combine_units :: "UnitType \<Rightarrow> UnitType \<Rightarrow> UnitType option" where
  "combine_units type_a type_b =
     (let power_a = unit_power type_a; power_b = unit_power type_b in
      if power_a = 0 \<or> power_b = 0 then None
      else let combined_power = power_a + power_b in
        if combined_power > 4 then None
        else UnitType_of (combined_power + 2))"

section \<open>Hex cells and the grid (engine/hex\_grid.py)\<close>

text \<open>A cell object is identified by its coordinate \<open>(col, row)\<close>, which never changes;
  the coordinate is the address of the cell in the store \<open>hexes\<close>, and the record holds
  the mutable fields.\<close>

type_synonym pos = "int \<times> int"

record Hex =
  is_land :: bool
  owner :: int
  unit :: UnitType
  has_capital :: bool
  has_castle :: bool
  grave :: bool
  can_move :: bool

definition is_empty_land :: "Hex \<Rightarrow> bool" where
  "is_empty_land h \<longleftrightarrow>
     is_land h \<and> unit h = NONE \<and> \<not> has_capital h \<and> \<not> has_castle h \<and> \<not> grave h"

definition has_tree :: "Hex \<Rightarrow> bool" where
  "has_tree h \<longleftrightarrow> unit h = TREE_PINE \<or> unit h = TREE_PALM"

definition has_combat_unit :: "Hex \<Rightarrow> bool" where
  "has_combat_unit h \<longleftrightarrow>
     unit h = PEASANT \<or> unit h = SPEARMAN \<or> unit h = KNIGHT \<or> unit h = BARON"

definition defense_power :: "Hex \<Rightarrow> int" where
  "defense_power h =
     (let pw = unit_power (unit h);
          pw = (if has_capital h then max pw CAPITAL_DEFENSE else pw);
          pw = (if has_castle h then max pw CASTLE_DEFENSE else pw)
      in pw)"

definition produces_income :: "Hex \<Rightarrow> bool" where
  "produces_income h \<longleftrightarrow>
     (if \<not> is_land h then False
      else if has_tree h \<or> grave h then False
      else True)"

definition clear_unit :: "Hex \<Rightarrow> Hex" where
  "clear_unit h = h\<lparr>unit := NONE, can_move := False\<rparr>"

definition kill_unit :: "Hex \<Rightarrow> Hex" where
  "kill_unit h =
     (if has_combat_unit h then h\<lparr>unit := NONE, grave := True, can_move := False\<rparr> else h)"

text \<open>The grid: \<open>HexGrid(width, height)\<close> creates one cell for every \<open>(col, row)\<close> with
  \<open>col\<close> in \<open>range(width)\<close> and \<open>row\<close> in \<open>range(height)\<close>, inserted column by column.
  The dictionary \<open>grid.hexes\<close> is the store restricted to these keys; \<open>grid_keys\<close> is its
  iteration order.\<close>

record HexGrid =
  width :: int
  height :: int
  hexes :: "pos \<Rightarrow> Hex"

definition grid_keys :: "HexGrid \<Rightarrow> pos list" where
  "grid_keys g = List.product [0..width g - 1] [0..height g - 1]"

definition in_grid :: "HexGrid \<Rightarrow> pos \<Rightarrow> bool" where
  "in_grid g p \<longleftrightarrow> 0 \<le> fst p \<and> fst p < width g \<and> 0 \<le> snd p \<and> snd p < height g"

text \<open>Mutating one field of the cell at an address.\<close>

definition upd_hex :: "pos \<Rightarrow> (Hex \<Rightarrow> Hex) \<Rightarrow> HexGrid \<Rightarrow> HexGrid" where
  "upd_hex p f g = g\<lparr>hexes := (hexes g)(p := f (hexes g p))\<rparr>"

definition NEIGHBOR_DIRS_EVEN :: "(int \<times> int) list" where
  "NEIGHBOR_DIRS_EVEN = [(1, 0), (1, -1), (0, -1), (-1, -1), (-1, 0), (0, 1)]"

definition NEIGHBOR_DIRS_ODD :: "(int \<times> int) list" where
  "NEIGHBOR_DIRS_ODD = [(1, 1), (1, 0), (0, -1), (-1, 0), (-1, 1), (0, 1)]"

text \<open>\<open>get_neighbors\<close> returns the adjacent cells that exist in the dictionary, in the
  order of the direction table.\<close>

definition get_neighbors :: "HexGrid \<Rightarrow> pos \<Rightarrow> pos list" where
  "get_neighbors g p =
     (let dirs = (if fst p mod 2 = 1 then NEIGHBOR_DIRS_ODD else NEIGHBOR_DIRS_EVEN)
      in filter (in_grid g) (map (\<lambda>(dc, dr). (fst p + dc, snd p + dr)) dirs))"

fun relative_power_loop :: "HexGrid \<Rightarrow> int \<Rightarrow> pos list \<Rightarrow> int \<Rightarrow> int" where
  "relative_power_loop g ow [] pw = pw"
| "relative_power_loop g ow (n # ns) pw =
     relative_power_loop g ow ns
       (if owner (hexes g n) = ow then max pw (defense_power (hexes g n)) else pw)"

definition get_relative_power :: "HexGrid \<Rightarrow> pos \<Rightarrow> int" where
  "get_relative_power g p =
     relative_power_loop g (owner (hexes g p)) (get_neighbors g p) (defense_power (hexes g p))"

definition is_coastal :: "HexGrid \<Rightarrow> pos \<Rightarrow> bool" where
  "is_coastal g p \<longleftrightarrow>
     int (length (filter (\<lambda>n. is_land (hexes g n)) (get_neighbors g p))) < 6"

definition all_land :: "HexGrid \<Rightarrow> pos list" where
  "all_land g = filter (\<lambda>p. is_land (hexes g p)) (grid_keys g)"

section \<open>Territories (engine/territory.py)\<close>

text \<open>A territory holds references to its member cells (their addresses), its owner, its
  treasury and the cached reference \<open>_capital_hex\<close>.\<close>

record Territory =
  t_hexes :: "pos list"
  t_owner :: int
  gold :: int
  capital_ref :: "pos option"

definition income :: "HexGrid \<Rightarrow> Territory \<Rightarrow> int" where
  "income g t = int (length (filter (\<lambda>p. produces_income (hexes g p)) (t_hexes t)))"

definition wages :: "HexGrid \<Rightarrow> Territory \<Rightarrow> int" where
  "wages g t = sum_list (map (\<lambda>p. unit_wage (unit (hexes g p))) (t_hexes t))"

definition net_income :: "HexGrid \<Rightarrow> Territory \<Rightarrow> int" where
  "net_income g t = income g t - wages g t"

text \<open>\<open>_go_bankrupt\<close>: every member cell in turn gets \<open>kill_unit\<close>, then the treasury is
  reset.\<close>

fun kill_units :: "pos list \<Rightarrow> HexGrid \<Rightarrow> HexGrid" where
  "kill_units [] g = g"
| "kill_units (p # ps) g = kill_units ps (upd_hex p kill_unit g)"

definition go_bankrupt :: "HexGrid \<Rightarrow> Territory \<Rightarrow> HexGrid \<times> Territory" where
  "go_bankrupt g t = (kill_units (t_hexes t) g, t\<lparr>gold := 0\<rparr>)"

text \<open>\<open>collect_income\<close> returns the flag, the grid and the territory after the call.\<close>

definition collect_income :: "HexGrid \<Rightarrow> Territory \<Rightarrow> bool \<times> HexGrid \<times> Territory" where
  "collect_income g t =
     (let t1 = t\<lparr>gold := gold t + net_income g t\<rparr> in
      if gold t1 < 0 then (let (g2, t2) = go_bankrupt g t1 in (True, g2, t2))
      else (False, g, t1))"

text \<open>The property \<open>capital_hex\<close> answers from the cached reference when that cell is
  still a member (whatever its \<open>has_capital\<close> flag says), and otherwise scans the members
  for the first one flagged as capital, caching it. It returns the answer and the
  territory with its cache.\<close>

definition capital_hex :: "HexGrid \<Rightarrow> Territory \<Rightarrow> pos option \<times> Territory" where
  "capital_hex g t =
     (let scan = (case find (\<lambda>p. has_capital (hexes g p)) (t_hexes t) of
                    Some h \<Rightarrow> (Some h, t\<lparr>capital_ref := Some h\<rparr>)
                  | None \<Rightarrow> (None, t))
      in case capital_ref t of
           Some c \<Rightarrow> if c \<in> set (t_hexes t) then (Some c, t) else scan
         | None \<Rightarrow> scan)"

definition place_capital :: "HexGrid \<Rightarrow> Territory \<Rightarrow> pos \<Rightarrow> HexGrid \<times> Territory" where
  "place_capital g t h =
     (upd_hex h (\<lambda>x. x\<lparr>has_capital := True, grave := False\<rparr>) g, t\<lparr>capital_ref := Some h\<rparr>)"

text \<open>\<open>list.sort(key=..., reverse=True)\<close> is a stable sort in descending order: elements
  with equal keys keep their original order.\<close>

definition sort_desc :: "('a \<Rightarrow> 'k::linorder) \<Rightarrow> 'a list \<Rightarrow> 'a list" where
  "sort_desc f xs = rev (sort_key f (rev xs))"

fun clear_capital_flags :: "pos list \<Rightarrow> HexGrid \<Rightarrow> HexGrid" where
  "clear_capital_flags [] g = g"
| "clear_capital_flags (p # ps) g =
     clear_capital_flags ps (upd_hex p (\<lambda>x. x\<lparr>has_capital := False\<rparr>) g)"

text \<open>\<open>ensure_capital(avoid_adjacent_to, preferred_pos)\<close>. The last fallback reads
  \<open>self.hexes[0]\<close>, which exists because the size is at least 2.\<close>

definition ensure_capital ::
  "HexGrid \<Rightarrow> Territory \<Rightarrow> pos set option \<Rightarrow> pos option \<Rightarrow> HexGrid \<times> Territory" where
  "ensure_capital g t avoid_adjacent_to preferred_pos =
     (if length (t_hexes t) \<ge> 2 then
        (case capital_hex g t of
           (Some c, t1) \<Rightarrow> (g, t1)
         | (None, t1) \<Rightarrow>
            (case (case preferred_pos of
                     Some pp \<Rightarrow> find (\<lambda>h. h = pp) (t_hexes t1)
                   | None \<Rightarrow> None) of
               Some h \<Rightarrow> place_capital g t1 h
             | None \<Rightarrow>
                (let candidates = filter (\<lambda>h. \<not> has_combat_unit (hexes g h) \<and>
                        \<not> has_castle (hexes g h) \<and> \<not> has_tree (hexes g h)) (t_hexes t1)
                 in if candidates \<noteq> [] then
                      (let candidates =
                         (case avoid_adjacent_to of
                            Some av \<Rightarrow>
                              if av \<noteq> {} then
                                (let safe = filter (\<lambda>h. h \<notin> av) candidates
                                 in if safe \<noteq> [] then safe else candidates)
                              else candidates
                          | None \<Rightarrow> candidates)
                       in place_capital g t1 (hd candidates))
                    else
                      (case filter (\<lambda>h. has_castle (hexes g h)) (t_hexes t1) of
                         h # _ \<Rightarrow>
                           place_capital (upd_hex h (\<lambda>x. x\<lparr>has_castle := False\<rparr>) g) t1 h
                       | [] \<Rightarrow>
                          (case sort_desc (\<lambda>h. unit_power (unit (hexes g h)))
                                  (filter (\<lambda>h. has_combat_unit (hexes g h)) (t_hexes t1)) of
                             h # _ \<Rightarrow>
                               place_capital
                                 (upd_hex h (\<lambda>x. x\<lparr>unit := NONE, grave := True,
                                    can_move := False\<rparr>) g) t1 h
                           | [] \<Rightarrow>
                              (case t_hexes t1 of
                                 h # _ \<Rightarrow>
                                   place_capital (upd_hex h (\<lambda>x. x\<lparr>unit := NONE\<rparr>) g) t1 h
                               | [] \<Rightarrow> (g, t1)))))))
      else (clear_capital_flags (t_hexes t) g, t\<lparr>capital_ref := None\<rparr>))"

subsection \<open>Flood fill\<close>

text \<open>The inner loop of \<open>flood_fill\<close> over the neighbours of the current cell: an
  unvisited land neighbour of the given owner is marked visited and queued.\<close>

fun visit_neighbors ::
  "HexGrid \<Rightarrow> int \<Rightarrow> pos list \<Rightarrow> pos list \<times> pos set \<Rightarrow> pos list \<times> pos set" where
  "visit_neighbors g ow [] (queue, visited) = (queue, visited)"
| "visit_neighbors g ow (n # ns) (queue, visited) =
     (if n \<notin> visited \<and> is_land (hexes g n) \<and> owner (hexes g n) = ow
      then visit_neighbors g ow ns (queue @ [n], insert n visited)
      else visit_neighbors g ow ns (queue, visited))"

lemma in_grid_keys: "p \<in> set (grid_keys g) \<longleftrightarrow> in_grid g p"
  by (cases p) (auto simp: grid_keys_def in_grid_def)

lemma distinct_grid_keys: "distinct (grid_keys g)"
  by (simp add: grid_keys_def distinct_product)

lemma get_neighbors_in_grid: "n \<in> set (get_neighbors g p) \<Longrightarrow> in_grid g n"
  by (auto simp: get_neighbors_def Let_def)

lemma visit_neighbors_measure:
  "\<forall>n \<in> set ns. in_grid g n \<Longrightarrow> visit_neighbors g ow ns (queue, visited) = (queue', visited') \<Longrightarrow>
   card (set (grid_keys g) - visited') + length queue' =
   card (set (grid_keys g) - visited) + length queue"
proof (induction ns arbitrary: queue visited)
  case Nil
  then show ?case by simp
next
  case (Cons n ns)
  show ?case
  proof (cases "n \<notin> visited \<and> is_land (hexes g n) \<and> owner (hexes g n) = ow")
    case True
    with Cons.prems have r: "visit_neighbors g ow ns (queue @ [n], insert n visited) = (queue', visited')"
      by simp
    from Cons.prems have "\<forall>n \<in> set ns. in_grid g n" by simp
    from Cons.IH [OF this r]
    have "card (set (grid_keys g) - visited') + length queue' =
          card (set (grid_keys g) - insert n visited) + length (queue @ [n])" .
    moreover have "n \<in> set (grid_keys g) - visited"
      using True Cons.prems by (simp add: in_grid_keys)
    then have "card (set (grid_keys g) - insert n visited) + 1 = card (set (grid_keys g) - visited)"
      by (metis Diff_insert List.finite_set Suc_eq_plus1 card_Suc_Diff1 finite_Diff)
    ultimately show ?thesis by simp
  next
    case False
    with Cons.prems have r: "visit_neighbors g ow ns (queue, visited) = (queue', visited')"
      by (simp split: if_splits)
    from Cons.prems have "\<forall>n \<in> set ns. in_grid g n" by simp
    from Cons.IH [OF this r] show ?thesis .
  qed
qed

text \<open>The \<open>while queue\<close> loop: pop the front of the queue, append it to the result, visit
  its neighbours.\<close>

function flood_loop :: "HexGrid \<Rightarrow> int \<Rightarrow> pos list \<Rightarrow> pos set \<Rightarrow> pos list \<Rightarrow> pos list" where
  "flood_loop g ow [] visited result = result"
| "flood_loop g ow (current # queue) visited result =
     (case visit_neighbors g ow (get_neighbors g current) (queue, visited) of
        (queue', visited') \<Rightarrow> flood_loop g ow queue' visited' (result @ [current]))"
  by pat_completeness auto
termination
  apply (relation "measure (\<lambda>(g, ow, queue, visited, result).
          card (set (grid_keys g) - visited) + length queue)")
   apply simp
  apply (auto dest!: sym [of _ "visit_neighbors _ _ _ _"]
      dest: visit_neighbors_measure [rotated] simp: get_neighbors_in_grid)
  done

text \<open>\<open>flood_fill(start, owner)\<close>.\<close>

definition flood_fill :: "HexGrid \<Rightarrow> pos \<Rightarrow> int \<Rightarrow> pos list" where
  "flood_fill g start ow =
     (if \<not> is_land (hexes g start) \<or> owner (hexes g start) \<noteq> ow then []
      else flood_loop g ow [start] {start} [])"

section \<open>Game state (engine/game\_state.py)\<close>

record Player =
  p_id :: int
  alive :: bool
  is_human :: bool

record GameState =
  grid :: HexGrid
  players :: "Player list"
  territories :: "Territory list"
  current_player_idx :: nat
  turn_number :: int
  game_over :: bool
  winner :: "int option"

text \<open>\<open>self.players[self.current_player_idx]\<close>; \<open>None\<close> stands for the \<open>IndexError\<close>.\<close>

definition current_player :: "GameState \<Rightarrow> Player option" where
  "current_player s =
     (if current_player_idx s < length (players s)
      then Some (players s ! current_player_idx s) else None)"

subsection \<open>refresh\_territories\<close>

text \<open>First loop: the dictionary \<open>old_caps\<close> from the position of each old territory's
  capital to \<open>(owner, gold, size)\<close>. Reading \<open>t.capital_hex\<close> may fill the cache of the old
  territory, so the territories are returned too.\<close>

fun old_caps_loop ::
  "HexGrid \<Rightarrow> Territory list \<Rightarrow> (pos \<rightharpoonup> int \<times> int \<times> int) \<Rightarrow>
   Territory list \<times> (pos \<rightharpoonup> int \<times> int \<times> int)" where
  "old_caps_loop g [] old_caps = ([], old_caps)"
| "old_caps_loop g (t # ts) old_caps =
     (case capital_hex g t of
        (cap, t') \<Rightarrow>
          (case old_caps_loop g ts
                  (case cap of
                     Some c \<Rightarrow> old_caps(c \<mapsto> (t_owner t', gold t', int (length (t_hexes t'))))
                   | None \<Rightarrow> old_caps) of
             (ts', old_caps') \<Rightarrow> (t' # ts', old_caps')))"

text \<open>Second loop: the capital of the first old territory that contains the priority
  position.\<close>

definition priority_cap :: "HexGrid \<Rightarrow> Territory list \<Rightarrow> pos option \<Rightarrow> pos option" where
  "priority_cap g ts merge_priority_pos =
     (case merge_priority_pos of
        None \<Rightarrow> None
      | Some mp \<Rightarrow>
         (case find (\<lambda>t. list_ex (\<lambda>h. h = mp) (t_hexes t)) ts of
            None \<Rightarrow> None
          | Some t \<Rightarrow> fst (capital_hex g t)))"

text \<open>\<open>Territory(region, owner)\<close>.\<close>

definition Territory_init :: "pos list \<Rightarrow> int \<Rightarrow> Territory" where
  "Territory_init region ow = \<lparr>t_hexes = region, t_owner = ow, gold = 0, capital_ref = None\<rparr>"

text \<open>The flood-fill loop over all land cells, with the set of visited positions and the
  list of territories found so far.\<close>

fun find_territories ::
  "HexGrid \<Rightarrow> pos list \<Rightarrow> pos set \<Rightarrow> Territory list \<Rightarrow> Territory list" where
  "find_territories g [] visited ts = ts"
| "find_territories g (h # hs) visited ts =
     (if h \<in> visited \<or> owner (hexes g h) < 0 then find_territories g hs visited ts
      else (let region = flood_fill g h (owner (hexes g h));
                visited' = visited \<union> set region
            in if region \<noteq> []
               then find_territories g hs visited' (ts @ [Territory_init region (owner (hexes g h))])
               else find_territories g hs visited' ts))"

text \<open>The old capitals of the same owner that lie in the new territory.\<close>

definition merged_caps_of ::
  "(pos \<rightharpoonup> int \<times> int \<times> int) \<Rightarrow> Territory \<Rightarrow> (pos \<times> int \<times> int) list" where
  "merged_caps_of old_caps t =
     List.map_filter
       (\<lambda>h. case old_caps h of
              Some (prev_owner, prev_gold, prev_size) \<Rightarrow>
                if prev_owner = t_owner t then Some (h, prev_gold, prev_size) else None
            | None \<Rightarrow> None)
       (t_hexes t)"

definition preferred_cap_of :: "pos option \<Rightarrow> (pos \<times> int \<times> int) list \<Rightarrow> pos option" where
  "preferred_cap_of priority_cap_pos merged_caps =
     (case sort_desc (\<lambda>c. (snd (snd c), Some (fst c) = priority_cap_pos)) merged_caps of
        c # _ \<Rightarrow> Some (fst c)
      | [] \<Rightarrow> None)"

text \<open>Last loop: restore the gold and place the capital of each new territory in turn.\<close>

fun restore_loop ::
  "HexGrid \<Rightarrow> (pos \<rightharpoonup> int \<times> int \<times> int) \<Rightarrow> pos option \<Rightarrow> (int \<rightharpoonup> pos set) \<Rightarrow>
   Territory list \<Rightarrow> HexGrid \<times> Territory list" where
  "restore_loop g old_caps priority_cap_pos capital_avoid [] = (g, [])"
| "restore_loop g old_caps priority_cap_pos capital_avoid (t # ts) =
     (let merged_caps = merged_caps_of old_caps t;
          t1 = t\<lparr>gold := sum_list (map (\<lambda>c. fst (snd c)) merged_caps)\<rparr>;
          preferred_cap = preferred_cap_of priority_cap_pos merged_caps;
          avoid = capital_avoid (t_owner t1)
      in case ensure_capital g t1 avoid preferred_cap of
           (g', t2) \<Rightarrow>
             (case restore_loop g' old_caps priority_cap_pos capital_avoid ts of
                (g'', ts') \<Rightarrow> (g'', t2 # ts')))"

text \<open>\<open>refresh_territories(capital_avoid, merge_priority_pos)\<close>; an absent or empty
  \<open>capital_avoid\<close> is the empty map.\<close>

definition refresh_territories ::
  "GameState \<Rightarrow> (int \<rightharpoonup> pos set) \<Rightarrow> pos option \<Rightarrow> GameState" where
  "refresh_territories s capital_avoid merge_priority_pos =
     (case old_caps_loop (grid s) (territories s) Map.empty of
        (ts0, old_caps) \<Rightarrow>
          (let priority_cap_pos = priority_cap (grid s) ts0 merge_priority_pos;
               g1 = clear_capital_flags (all_land (grid s)) (grid s);
               ts1 = find_territories g1 (all_land g1) {} []
           in case restore_loop g1 old_caps priority_cap_pos capital_avoid ts1 of
                (g2, ts2) \<Rightarrow> s\<lparr>grid := g2, territories := ts2\<rparr>))"

subsection \<open>Tree growth\<close>

fun graves_to_trees :: "int \<Rightarrow> pos list \<Rightarrow> HexGrid \<Rightarrow> HexGrid" where
  "graves_to_trees player_id [] g = g"
| "graves_to_trees player_id (h # hs) g =
     (if owner (hexes g h) \<noteq> player_id \<or> \<not> grave (hexes g h)
      then graves_to_trees player_id hs g
      else graves_to_trees player_id hs
             (upd_hex h (\<lambda>x. x\<lparr>unit := (if is_coastal g h then TREE_PALM else TREE_PINE),
                                grave := False\<rparr>) g))"

fun spread_trees ::
  "HexGrid \<Rightarrow> int \<Rightarrow> pos set \<Rightarrow> pos set \<Rightarrow> pos list \<Rightarrow> (pos \<times> UnitType) list" where
  "spread_trees g player_id original_palms original_pines [] = []"
| "spread_trees g player_id original_palms original_pines (h # hs) =
     (let rest = spread_trees g player_id original_palms original_pines hs in
      if owner (hexes g h) \<noteq> player_id then rest
      else if unit (hexes g h) \<noteq> NONE \<or> has_capital (hexes g h)
              \<or> has_castle (hexes g h) \<or> grave (hexes g h) then rest
      else (let neighbors = get_neighbors g h in
            if is_coastal g h then
              (if list_ex (\<lambda>n. n \<in> original_palms) neighbors
               then (h, TREE_PALM) # rest else rest)
            else
              (if int (length (filter (\<lambda>n. n \<in> original_pines) neighbors)) \<ge> 2
               then (h, TREE_PINE) # rest else rest)))"

fun place_trees :: "(pos \<times> UnitType) list \<Rightarrow> HexGrid \<Rightarrow> HexGrid" where
  "place_trees [] g = g"
| "place_trees ((h, tree_type) # new_trees) g =
     place_trees new_trees (upd_hex h (\<lambda>x. x\<lparr>unit := tree_type\<rparr>) g)"

text \<open>\<open>_grow_trees(player_id)\<close>: snapshot, graves, spreading.\<close>

definition grow_trees :: "HexGrid \<Rightarrow> int \<Rightarrow> HexGrid" where
  "grow_trees g player_id =
     (let original_palms = set (filter (\<lambda>h. unit (hexes g h) = TREE_PALM) (all_land g));
          original_pines = set (filter (\<lambda>h. unit (hexes g h) = TREE_PINE) (all_land g));
          g1 = graves_to_trees player_id (all_land g) g;
          new_trees = spread_trees g1 player_id original_palms original_pines (all_land g1)
      in place_trees new_trees g1)"

text \<open>The same three loops with the order in which each one visits the land cells as a
  parameter; \<open>grow_trees\<close> is the instance where each order is \<open>all_land\<close>.\<close>

definition grow_trees_in :: "pos list \<Rightarrow> pos list \<Rightarrow> pos list \<Rightarrow> HexGrid \<Rightarrow> int \<Rightarrow> HexGrid" where
  "grow_trees_in order1 order2 order3 g player_id =
     (let original_palms = set (filter (\<lambda>h. unit (hexes g h) = TREE_PALM) order1);
          original_pines = set (filter (\<lambda>h. unit (hexes g h) = TREE_PINE) order1);
          g1 = graves_to_trees player_id order2 g;
          new_trees = spread_trees g1 player_id original_palms original_pines order3
      in place_trees new_trees g1)"

subsection \<open>Actions of the player\<close>

text \<open>The operations take the territory as its index in \<open>territories\<close> and the cells as
  their addresses. They return \<open>None\<close> where Python raises (no current player, no such
  territory) and otherwise the Boolean result with the state after the call.\<close>

definition buy_peasant :: "GameState \<Rightarrow> nat \<Rightarrow> pos \<Rightarrow> (bool \<times> GameState) option" where
  "buy_peasant s ti target_hex =
     (case current_player s of
        None \<Rightarrow> None
      | Some pl \<Rightarrow>
         if ti \<ge> length (territories s) then None
         else
          (let territory = territories s ! ti; g = grid s; th = hexes g target_hex in
           if t_owner territory \<noteq> p_id pl then Some (False, s)
           else if gold territory < PEASANT_COST then Some (False, s)
           else if target_hex \<notin> set (t_hexes territory) then Some (False, s)
           else
            (case (if has_combat_unit th then
                     (case combine_units (unit th) PEASANT of
                        None \<Rightarrow> None
                      | Some combined \<Rightarrow> Some (upd_hex target_hex (\<lambda>x. x\<lparr>unit := combined\<rparr>) g))
                   else if is_empty_land th \<or> has_tree th \<or> grave th then
                     Some (upd_hex target_hex (\<lambda>x. x\<lparr>unit := PEASANT, grave := False\<rparr>) g)
                   else None) of
               None \<Rightarrow> Some (False, s)
             | Some g1 \<Rightarrow>
                 Some (True,
                   s\<lparr>grid := upd_hex target_hex (\<lambda>x. x\<lparr>can_move := True\<rparr>) g1,
                     territories :=
                       (territories s)[ti := territory\<lparr>gold := gold territory - PEASANT_COST\<rparr>]\<rparr>))))"

definition buy_castle :: "GameState \<Rightarrow> nat \<Rightarrow> pos \<Rightarrow> (bool \<times> GameState) option" where
  "buy_castle s ti target_hex =
     (case current_player s of
        None \<Rightarrow> None
      | Some pl \<Rightarrow>
         if ti \<ge> length (territories s) then None
         else
          (let territory = territories s ! ti; g = grid s; th = hexes g target_hex in
           if t_owner territory \<noteq> p_id pl then Some (False, s)
           else if gold territory < CASTLE_COST then Some (False, s)
           else if target_hex \<notin> set (t_hexes territory) then Some (False, s)
           else if has_castle th \<or> has_capital th then Some (False, s)
           else if has_combat_unit th then Some (False, s)
           else if \<not> is_land th then Some (False, s)
           else
             Some (True,
               s\<lparr>grid := upd_hex target_hex
                            (\<lambda>x. x\<lparr>has_castle := True, grave := False, unit := NONE\<rparr>) g,
                 territories :=
                   (territories s)[ti := territory\<lparr>gold := gold territory - CASTLE_COST\<rparr>]\<rparr>)))"

text \<open>The branch of \<open>move_unit\<close> for a target inside the unit's own territory: what happens
  to the target cell (\<open>None\<close> where the code returns \<open>False\<close>).\<close>

definition move_within :: "HexGrid \<Rightarrow> UnitType \<Rightarrow> pos \<Rightarrow> HexGrid option" where
  "move_within g unit_type to_hex =
     (let th = hexes g to_hex in
      if has_combat_unit th then
        (case combine_units (unit th) unit_type of
           None \<Rightarrow> None
         | Some combined \<Rightarrow>
             Some (upd_hex to_hex (\<lambda>x. x\<lparr>unit := combined, can_move := True\<rparr>) g))
      else if has_tree th then
        Some (upd_hex to_hex (\<lambda>x. x\<lparr>unit := unit_type, can_move := False\<rparr>) g)
      else if grave th then
        Some (upd_hex to_hex (\<lambda>x. x\<lparr>unit := unit_type, can_move := False, grave := False\<rparr>) g)
      else if is_empty_land th then
        Some (upd_hex to_hex (\<lambda>x. x\<lparr>unit := unit_type, can_move := True\<rparr>) g)
      else None)"

text \<open>Zeroing the gold of the first territory of the old owner that contains the captured
  cell.\<close>

fun zero_gold_first :: "int \<Rightarrow> pos \<Rightarrow> Territory list \<Rightarrow> Territory list" where
  "zero_gold_first old_owner p [] = []"
| "zero_gold_first old_owner p (t # ts) =
     (if t_owner t = old_owner \<and> p \<in> set (t_hexes t) then t\<lparr>gold := 0\<rparr> # ts
      else t # zero_gold_first old_owner p ts)"

definition move_unit :: "GameState \<Rightarrow> pos \<Rightarrow> pos \<Rightarrow> (bool \<times> GameState) option" where
  "move_unit s from_hex to_hex =
     (case current_player s of
        None \<Rightarrow> None
      | Some pl \<Rightarrow>
         (let player_id = p_id pl; g = grid s; fh = hexes g from_hex; th = hexes g to_hex in
          if owner fh \<noteq> player_id then Some (False, s)
          else if \<not> has_combat_unit fh then Some (False, s)
          else if \<not> can_move fh then Some (False, s)
          else if \<not> is_land th then Some (False, s)
          else
           (let unit_type = unit fh; pw = unit_power unit_type in
            case find (\<lambda>t. t_owner t = player_id \<and> from_hex \<in> set (t_hexes t)) (territories s) of
              None \<Rightarrow> Some (False, s)
            | Some source_territory \<Rightarrow>
               (let territory_hexes = set (t_hexes source_territory);
                    is_adjacent =
                      (list_ex (\<lambda>h. list_ex (\<lambda>n. n = to_hex) (get_neighbors g h))
                         (t_hexes source_territory)
                       \<or> to_hex \<in> territory_hexes)
                in
                if \<not> is_adjacent \<and> to_hex \<notin> territory_hexes then Some (False, s)
                else if owner th = player_id \<and> to_hex \<in> set (t_hexes source_territory) then
                  (case move_within g unit_type to_hex of
                     None \<Rightarrow> Some (False, s)
                   | Some g1 \<Rightarrow> Some (True, s\<lparr>grid := upd_hex from_hex clear_unit g1\<rparr>))
                else if owner th \<noteq> player_id then
                  (if \<not> list_ex (\<lambda>h. to_hex \<in> set (get_neighbors g h)) (t_hexes source_territory)
                   then Some (False, s)
                   else if pw \<le> get_relative_power g to_hex then Some (False, s)
                   else
                    (let old_owner = owner th;
                         captured_capital = has_capital th;
                         ts1 = (if captured_capital
                                then zero_gold_first old_owner to_hex (territories s)
                                else territories s);
                         g1 = upd_hex to_hex
                                (\<lambda>x. x\<lparr>owner := player_id, unit := unit_type,
                                        has_capital := False, has_castle := False,
                                        grave := False, can_move := False\<rparr>) g;
                         g2 = upd_hex from_hex clear_unit g1;
                         capital_avoid =
                           (if captured_capital
                            then [old_owner \<mapsto> insert to_hex (set (get_neighbors g2 to_hex))]
                            else Map.empty)
                     in Some (True,
                          refresh_territories (s\<lparr>grid := g2, territories := ts1\<rparr>)
                            capital_avoid (Some from_hex))))
                else Some (False, s)))))"

section \<open>Action enumeration (engine/actions.py)\<close>

datatype ActionType = BUY_PEASANT | BUY_CASTLE | MOVE_UNIT | END_TURN

record Action =
  a_type :: ActionType
  from_pos :: "pos option"
  to_pos :: "pos option"
  territory_idx :: "nat option"

definition movable_units :: "HexGrid \<Rightarrow> Territory \<Rightarrow> pos list" where
  "movable_units g t =
     filter (\<lambda>h. has_combat_unit (hexes g h) \<and> can_move (hexes g h)) (t_hexes t)"

text \<open>\<open>neighboring_hexes\<close> collects the land cells next to the territory in a Python set and
  returns them as a list; the order of that list is not fixed by the language, and the
  cells are listed here without repetition in the order \<open>remdups\<close> leaves.\<close>

definition neighboring_hexes :: "HexGrid \<Rightarrow> Territory \<Rightarrow> pos list" where
  "neighboring_hexes g t =
     remdups (filter (\<lambda>n. n \<notin> set (t_hexes t) \<and> is_land (hexes g n))
                (concat (map (get_neighbors g) (t_hexes t))))"

definition buy_peasant_actions :: "HexGrid \<Rightarrow> nat \<Rightarrow> Territory \<Rightarrow> Action list" where
  "buy_peasant_actions g t_idx territory =
     (if gold territory \<ge> PEASANT_COST then
        concat (map (\<lambda>h.
          if is_empty_land (hexes g h) \<or> grave (hexes g h) \<or> has_tree (hexes g h) then
            [\<lparr>a_type = BUY_PEASANT, from_pos = None, to_pos = Some h, territory_idx = Some t_idx\<rparr>]
          else if has_combat_unit (hexes g h) then
            (case combine_units (unit (hexes g h)) PEASANT of
               Some combined \<Rightarrow>
                 [\<lparr>a_type = BUY_PEASANT, from_pos = None, to_pos = Some h,
                   territory_idx = Some t_idx\<rparr>]
             | None \<Rightarrow> [])
          else []) (t_hexes territory))
      else [])"

definition buy_castle_actions :: "HexGrid \<Rightarrow> nat \<Rightarrow> Territory \<Rightarrow> Action list" where
  "buy_castle_actions g t_idx territory =
     (if gold territory \<ge> CASTLE_COST then
        concat (map (\<lambda>h.
          if (is_empty_land (hexes g h) \<or> grave (hexes g h)) \<and> \<not> has_castle (hexes g h)
             \<and> \<not> has_capital (hexes g h) then
            [\<lparr>a_type = BUY_CASTLE, from_pos = None, to_pos = Some h, territory_idx = Some t_idx\<rparr>]
          else []) (t_hexes territory))
      else [])"

definition move_unit_actions :: "HexGrid \<Rightarrow> int \<Rightarrow> Territory \<Rightarrow> Action list" where
  "move_unit_actions g player_id territory =
     concat (map (\<lambda>h.
       (let pw = unit_power (unit (hexes g h)) in
        concat (map (\<lambda>target.
          if target = h then []
          else if is_empty_land (hexes g target) \<or> grave (hexes g target) then
            [\<lparr>a_type = MOVE_UNIT, from_pos = Some h, to_pos = Some target, territory_idx = None\<rparr>]
          else if has_tree (hexes g target) then
            [\<lparr>a_type = MOVE_UNIT, from_pos = Some h, to_pos = Some target, territory_idx = None\<rparr>]
          else if has_combat_unit (hexes g target) then
            (case combine_units (unit (hexes g target)) (unit (hexes g h)) of
               Some combined \<Rightarrow>
                 [\<lparr>a_type = MOVE_UNIT, from_pos = Some h, to_pos = Some target,
                   territory_idx = None\<rparr>]
             | None \<Rightarrow> [])
          else []) (t_hexes territory))
        @ concat (map (\<lambda>target.
          if owner (hexes g target) = player_id then []
          else if pw > get_relative_power g target then
            [\<lparr>a_type = MOVE_UNIT, from_pos = Some h, to_pos = Some target, territory_idx = None\<rparr>]
          else []) (neighboring_hexes g territory))))
       (movable_units g territory))"

text \<open>\<open>get_legal_actions\<close>: for each territory of the current player, numbered as
  \<open>enumerate\<close> does, the purchases and the moves, and \<open>END_TURN\<close> at the end.\<close>

definition get_legal_actions :: "GameState \<Rightarrow> Action list option" where
  "get_legal_actions s =
     (case current_player s of
        None \<Rightarrow> None
      | Some pl \<Rightarrow>
         (let player_id = p_id pl; g = grid s;
              player_territories = filter (\<lambda>t. t_owner t = player_id) (territories s)
          in Some (concat (map (\<lambda>(t_idx, territory).
                       buy_peasant_actions g t_idx territory
                       @ buy_castle_actions g t_idx territory
                       @ move_unit_actions g player_id territory)
                     (enumerate 0 player_territories))
                   @ [\<lparr>a_type = END_TURN, from_pos = None, to_pos = None,
                        territory_idx = None\<rparr>])))"

section \<open>Reference definitions\<close>

text \<open>The defense power and the relative power in the words of the specification: the
  defense power of a cell is its unit's power, raised to at least 1 if the cell holds a
  capital and to at least 2 if it holds a castle; the relative power of a cell is the
  maximum of its own defense power and the defense powers of its neighbours of the same
  owner.\<close>

definition spec_defense_power :: "Hex \<Rightarrow> int" where
  "spec_defense_power h =
     max (unit_power (unit h))
       (max (if has_capital h then 1 else 0) (if has_castle h then 2 else 0))"

definition spec_relative_power :: "HexGrid \<Rightarrow> pos \<Rightarrow> int" where
  "spec_relative_power g p =
     Max (insert (spec_defense_power (hexes g p))
            ((\<lambda>n. spec_defense_power (hexes g n)) `
               set (filter (\<lambda>n. owner (hexes g n) = owner (hexes g p)) (get_neighbors g p))))"

text \<open>Tree growth in the words of the specification, cell by cell, from the grid before
  the pass only. A snapshot tree is a land cell of the grid that holds that tree before the
  pass. A land cell of the acting player that is a grave becomes a palm if it is coastal
  and a pine otherwise; one that is truly empty (no unit, capital, castle or grave) becomes
  a palm if it is coastal and next to a snapshot palm, or a pine if it is not coastal and
  next to at least two snapshot pines; every other cell stays as it is.\<close>

definition snapshot_tree :: "HexGrid \<Rightarrow> UnitType \<Rightarrow> pos \<Rightarrow> bool" where
  "snapshot_tree g tree n \<longleftrightarrow> in_grid g n \<and> is_land (hexes g n) \<and> unit (hexes g n) = tree"

definition spec_grown_cell :: "HexGrid \<Rightarrow> int \<Rightarrow> pos \<Rightarrow> Hex" where
  "spec_grown_cell g player_id p =
     (let h = hexes g p in
      if in_grid g p \<and> is_land h \<and> owner h = player_id then
        (if grave h then
           h\<lparr>unit := (if is_coastal g p then TREE_PALM else TREE_PINE), grave := False\<rparr>
         else if unit h = NONE \<and> \<not> has_capital h \<and> \<not> has_castle h then
           (if is_coastal g p then
              (if \<exists>n \<in> set (get_neighbors g p). snapshot_tree g TREE_PALM n
               then h\<lparr>unit := TREE_PALM\<rparr> else h)
            else
              (if card {n \<in> set (get_neighbors g p). snapshot_tree g TREE_PINE n} \<ge> 2
               then h\<lparr>unit := TREE_PINE\<rparr> else h))
         else h)
      else h)"

section \<open>Search engine (ai/alphabeta\_ai.py)\<close>

text \<open>A search action is the tuple \<open>(ACT_CAPTURE, fpos, tpos)\<close>, \<open>(ACT_MOVE, fpos, tpos)\<close>
  or \<open>(ACT_END_TURN, None, None)\<close>; an undo record is the tuple that \<open>fast_apply\<close>
  returns for it.\<close>

datatype SearchAction = ACT_CAPTURE pos pos | ACT_MOVE pos pos | ACT_END_TURN

datatype Undo =
    UNDO_CAPTURE pos pos UnitType bool int UnitType bool bool bool bool
  | UNDO_MOVE pos pos UnitType bool UnitType bool
  | UNDO_END_TURN "(pos \<times> bool) list"

text \<open>The constant \<open>INF\<close> of the source.\<close>

definition INFTY :: int where "INFTY = 100000"

text \<open>The cells of \<open>player_id\<close> that hold a movable combat unit, in dictionary order, and
  for one such cell the captures and the repositioning moves to its neighbours.\<close>

definition movers :: "HexGrid \<Rightarrow> int \<Rightarrow> pos list" where
  "movers g player_id =
     filter (\<lambda>h. is_land (hexes g h) \<and> owner (hexes g h) = player_id \<and>
                  has_combat_unit (hexes g h) \<and> can_move (hexes g h)) (grid_keys g)"

definition unit_captures :: "HexGrid \<Rightarrow> int \<Rightarrow> pos \<Rightarrow> SearchAction list" where
  "unit_captures g player_id h =
     map (ACT_CAPTURE h)
       (filter (\<lambda>n. is_land (hexes g n) \<and> owner (hexes g n) \<noteq> player_id \<and>
                     unit_power (unit (hexes g h)) > get_relative_power g n)
          (get_neighbors g h))"

definition unit_moves :: "HexGrid \<Rightarrow> int \<Rightarrow> pos \<Rightarrow> SearchAction list" where
  "unit_moves g player_id h =
     map (ACT_MOVE h)
       (filter (\<lambda>n. is_land (hexes g n) \<and> \<not> owner (hexes g n) \<noteq> player_id \<and>
                     unit (hexes g n) = NONE \<and> \<not> has_capital (hexes g n) \<and>
                     \<not> has_castle (hexes g n) \<and> \<not> grave (hexes g n))
          (get_neighbors g h))"

definition get_search_actions :: "HexGrid \<Rightarrow> int \<Rightarrow> SearchAction list" where
  "get_search_actions g player_id =
     concat (map (unit_captures g player_id) (movers g player_id))
     @ concat (map (unit_moves g player_id) (movers g player_id))
     @ [ACT_END_TURN]"

text \<open>The loop of the end-turn action over \<open>grid.hexes.items()\<close>: the movement flag of
  each combat unit of the next player is saved and set.\<close>

fun reset_moves ::
  "int \<Rightarrow> pos list \<Rightarrow> HexGrid \<Rightarrow> (pos \<times> bool) list \<Rightarrow> HexGrid \<times> (pos \<times> bool) list" where
  "reset_moves npid [] g saved = (g, saved)"
| "reset_moves npid (p # ps) g saved =
     (if owner (hexes g p) = npid \<and> has_combat_unit (hexes g p)
      then reset_moves npid ps (upd_hex p (\<lambda>x. x\<lparr>can_move := True\<rparr>) g)
             (saved @ [(p, can_move (hexes g p))])
      else reset_moves npid ps g saved)"

text \<open>\<open>fast_apply\<close> returns the next player index, the grid after the in-place mutation
  and the undo record; \<open>None\<close> stands for the \<open>KeyError\<close> of \<open>grid.hexes[pos]\<close> at a
  position outside the dictionary and for the \<open>ZeroDivisionError\<close> of \<open>% num_players\<close>.\<close>

fun fast_apply ::
  "HexGrid \<Rightarrow> int \<Rightarrow> int \<Rightarrow> SearchAction \<Rightarrow> (int \<times> HexGrid \<times> Undo) option" where
  "fast_apply g player_idx num_players (ACT_CAPTURE fpos tpos) =
     (if \<not> in_grid g fpos \<or> \<not> in_grid g tpos then None
      else
        (let fh = hexes g fpos; th = hexes g tpos;
             undo = UNDO_CAPTURE fpos tpos (unit fh) (can_move fh)
                      (owner th) (unit th) (has_capital th) (has_castle th) (grave th)
                      (can_move th);
             g1 = upd_hex tpos (\<lambda>x. x\<lparr>owner := owner fh, unit := unit fh,
                    has_capital := False, has_castle := False, grave := False,
                    can_move := False\<rparr>) g;
             g2 = upd_hex fpos (\<lambda>x. x\<lparr>unit := NONE, can_move := False\<rparr>) g1
         in Some (player_idx, g2, undo)))"
| "fast_apply g player_idx num_players (ACT_MOVE fpos tpos) =
     (if \<not> in_grid g fpos \<or> \<not> in_grid g tpos then None
      else
        (let fh = hexes g fpos; th = hexes g tpos;
             undo = UNDO_MOVE fpos tpos (unit fh) (can_move fh) (unit th) (can_move th);
             g1 = upd_hex tpos (\<lambda>x. x\<lparr>unit := unit fh, can_move := True\<rparr>) g;
             g2 = upd_hex fpos (\<lambda>x. x\<lparr>unit := NONE, can_move := False\<rparr>) g1
         in Some (player_idx, g2, undo)))"
| "fast_apply g player_idx num_players ACT_END_TURN =
     (if num_players = 0 then None
      else
        (let nidx = (player_idx + 1) mod num_players in
         case reset_moves nidx (grid_keys g) g [] of
           (g1, saved) \<Rightarrow> Some (nidx, g1, UNDO_END_TURN saved)))"

fun restore_moves :: "(pos \<times> bool) list \<Rightarrow> HexGrid \<Rightarrow> HexGrid option" where
  "restore_moves [] g = Some g"
| "restore_moves ((p, cm) # saved) g =
     (if \<not> in_grid g p then None
      else restore_moves saved (upd_hex p (\<lambda>x. x\<lparr>can_move := cm\<rparr>) g))"

fun fast_undo :: "HexGrid \<Rightarrow> Undo \<Rightarrow> HexGrid option" where
  "fast_undo g (UNDO_CAPTURE fpos tpos fu fcm tow tu tcap tcas tgr tcm) =
     (if \<not> in_grid g fpos \<or> \<not> in_grid g tpos then None
      else
        (let g1 = upd_hex fpos (\<lambda>x. x\<lparr>unit := fu, can_move := fcm\<rparr>) g;
             g2 = upd_hex tpos (\<lambda>x. x\<lparr>owner := tow, unit := tu, has_capital := tcap,
                    has_castle := tcas, grave := tgr, can_move := tcm\<rparr>) g1
         in Some g2))"
| "fast_undo g (UNDO_MOVE fpos tpos fu fcm tu tcm) =
     (if \<not> in_grid g fpos \<or> \<not> in_grid g tpos then None
      else
        (let g1 = upd_hex fpos (\<lambda>x. x\<lparr>unit := fu, can_move := fcm\<rparr>) g;
             g2 = upd_hex tpos (\<lambda>x. x\<lparr>unit := tu, can_move := tcm\<rparr>) g1
         in Some g2))"
| "fast_undo g (UNDO_END_TURN saved) = restore_moves saved g"

definition eval_hex_count :: "HexGrid \<Rightarrow> int \<Rightarrow> int" where
  "eval_hex_count g player_id =
     int (length (filter (\<lambda>h. is_land (hexes g h) \<and> owner (hexes g h) = player_id)
                    (grid_keys g)))
     - int (length (filter (\<lambda>h. is_land (hexes g h) \<and> owner (hexes g h) \<noteq> player_id \<and>
                               owner (hexes g h) \<ge> 0) (grid_keys g)))"

text \<open>\<open>alphabeta\<close> with the clock never reaching the deadline, so that \<open>_timed_out\<close> stays
  false and the node counter \<open>stats\<close> has no effect on the result. The two \<open>for\<close> loops
  are \<open>ab_max\<close> and \<open>ab_min\<close>, with the running \<open>value\<close>, \<open>alpha\<close> and \<open>beta\<close>; each function
  returns the score and the grid as the call leaves it.\<close>

function alphabeta ::
    "HexGrid \<Rightarrow> int \<Rightarrow> int \<Rightarrow> int \<Rightarrow> int \<Rightarrow> int \<Rightarrow> int \<Rightarrow> (int \<times> HexGrid) option"
  and ab_max ::
    "HexGrid \<Rightarrow> int \<Rightarrow> int \<Rightarrow> int \<Rightarrow> int \<Rightarrow> int \<Rightarrow> int \<Rightarrow> int \<Rightarrow> SearchAction list \<Rightarrow>
     (int \<times> HexGrid) option"
  and ab_min ::
    "HexGrid \<Rightarrow> int \<Rightarrow> int \<Rightarrow> int \<Rightarrow> int \<Rightarrow> int \<Rightarrow> int \<Rightarrow> int \<Rightarrow> SearchAction list \<Rightarrow>
     (int \<times> HexGrid) option"
where
  "alphabeta g pidx nplayers max_pid depth alpha beta =
     (if depth \<le> 0 then Some (eval_hex_count g max_pid, g)
      else if pidx = max_pid
        then ab_max g pidx nplayers max_pid depth alpha beta (- INFTY) (get_search_actions g pidx)
        else ab_min g pidx nplayers max_pid depth alpha beta INFTY (get_search_actions g pidx))"
| "ab_max g pidx nplayers max_pid depth alpha beta val [] = Some (val, g)"
| "ab_max g pidx nplayers max_pid depth alpha beta val (action # actions) =
     (case fast_apply g pidx nplayers action of
        None \<Rightarrow> None
      | Some (nidx, g1, undo) \<Rightarrow>
         (case alphabeta g1 nidx nplayers max_pid (depth - 1) alpha beta of
            None \<Rightarrow> None
          | Some (v, g2) \<Rightarrow>
             (case fast_undo g2 undo of
                None \<Rightarrow> None
              | Some g3 \<Rightarrow>
                 (let val' = (if v > val then v else val);
                      alpha' = (if val' > alpha then val' else alpha)
                  in if alpha' \<ge> beta then Some (val', g3)
                     else ab_max g3 pidx nplayers max_pid depth alpha' beta val' actions))))"
| "ab_min g pidx nplayers max_pid depth alpha beta val [] = Some (val, g)"
| "ab_min g pidx nplayers max_pid depth alpha beta val (action # actions) =
     (case fast_apply g pidx nplayers action of
        None \<Rightarrow> None
      | Some (nidx, g1, undo) \<Rightarrow>
         (case alphabeta g1 nidx nplayers max_pid (depth - 1) alpha beta of
            None \<Rightarrow> None
          | Some (v, g2) \<Rightarrow>
             (case fast_undo g2 undo of
                None \<Rightarrow> None
              | Some g3 \<Rightarrow>
                 (let val' = (if v < val then v else val);
                      beta' = (if val' < beta then val' else beta)
                  in if alpha \<ge> beta' then Some (val', g3)
                     else ab_min g3 pidx nplayers max_pid depth alpha beta' val' actions))))"
  by pat_completeness auto
termination
  by (relation "measures
        [\<lambda>x. case x of
               Inl (g, pidx, n, mp, depth, a, b) \<Rightarrow> nat depth
             | Inr (Inl (g, pidx, n, mp, depth, a, b, v, acts)) \<Rightarrow> nat depth
             | Inr (Inr (g, pidx, n, mp, depth, a, b, v, acts)) \<Rightarrow> nat depth,
         \<lambda>x. case x of
               Inl (g, pidx, n, mp, depth, a, b) \<Rightarrow> (if depth \<le> 0 then 0 else 2)
             | Inr (Inl (g, pidx, n, mp, depth, a, b, v, acts)) \<Rightarrow> 1
             | Inr (Inr (g, pidx, n, mp, depth, a, b, v, acts)) \<Rightarrow> 1,
         \<lambda>x. case x of
               Inl (g, pidx, n, mp, depth, a, b) \<Rightarrow> 0
             | Inr (Inl (g, pidx, n, mp, depth, a, b, v, acts)) \<Rightarrow> length acts
             | Inr (Inr (g, pidx, n, mp, depth, a, b, v, acts)) \<Rightarrow> length acts]")
    auto

text \<open>The loop of \<open>search_at_depth\<close> over the root actions, and \<open>search_at_depth\<close> itself,
  which returns the best action, its score and the grid it leaves.\<close>

fun root_loop ::
  "HexGrid \<Rightarrow> int \<Rightarrow> int \<Rightarrow> int \<Rightarrow> int \<Rightarrow> SearchAction \<Rightarrow> int \<Rightarrow> int \<Rightarrow> SearchAction list \<Rightarrow>
   ((SearchAction \<times> int) \<times> HexGrid) option" where
  "root_loop g player_idx num_players player_id depth best_action best_score alpha [] =
     Some ((best_action, best_score), g)"
| "root_loop g player_idx num_players player_id depth best_action best_score alpha
     (action # actions) =
     (case fast_apply g player_idx num_players action of
        None \<Rightarrow> None
      | Some (nidx, g1, undo) \<Rightarrow>
         (case alphabeta g1 nidx num_players player_id (depth - 1) alpha INFTY of
            None \<Rightarrow> None
          | Some (score, g2) \<Rightarrow>
             (case fast_undo g2 undo of
                None \<Rightarrow> None
              | Some g3 \<Rightarrow>
                 root_loop g3 player_idx num_players player_id depth
                   (if score > best_score then action else best_action)
                   (if score > best_score then score else best_score)
                   (if score > alpha then score else alpha)
                   actions)))"

definition search_at_depth ::
  "HexGrid \<Rightarrow> int \<Rightarrow> int \<Rightarrow> int \<Rightarrow> int \<Rightarrow> ((SearchAction \<times> int) \<times> HexGrid) option" where
  "search_at_depth g player_idx num_players player_id depth =
     root_loop g player_idx num_players player_id depth ACT_END_TURN (- INFTY) (- INFTY)
       (get_search_actions g player_id)"

subsection \<open>Reference: brute-force minimax\<close>

text \<open>The reference of the specification's words: plain minimax over the same reduced
  action model, without pruning and without bounds. At depth 0 or below the value is the
  leaf evaluation for the root player; otherwise every action that \<open>get_search_actions\<close>
  generates is applied to a copy of the grid, the child is valued one ply less deep with the
  player index that \<open>fast_apply\<close> returns, and the node takes the maximum of the children
  when it is the root player's turn and the minimum otherwise. \<open>None\<close> is a failing apply,
  as in \<open>fast_apply\<close>.\<close>

function minimax :: "HexGrid \<Rightarrow> int \<Rightarrow> int \<Rightarrow> int \<Rightarrow> int \<Rightarrow> int option"
  and minimax_children ::
    "HexGrid \<Rightarrow> int \<Rightarrow> int \<Rightarrow> int \<Rightarrow> int \<Rightarrow> SearchAction list \<Rightarrow> int list option"
where
  "minimax g pidx nplayers max_pid depth =
     (if depth \<le> 0 then Some (eval_hex_count g max_pid)
      else
        (case minimax_children g pidx nplayers max_pid depth (get_search_actions g pidx) of
           None \<Rightarrow> None
         | Some vs \<Rightarrow> Some (if pidx = max_pid then Max (set vs) else Min (set vs))))"
| "minimax_children g pidx nplayers max_pid depth [] = Some []"
| "minimax_children g pidx nplayers max_pid depth (action # actions) =
     (case fast_apply g pidx nplayers action of
        None \<Rightarrow> None
      | Some (nidx, g_copy, undo) \<Rightarrow>
         (case minimax g_copy nidx nplayers max_pid (depth - 1) of
            None \<Rightarrow> None
          | Some v \<Rightarrow>
             (case minimax_children g pidx nplayers max_pid depth actions of
                None \<Rightarrow> None
              | Some vs \<Rightarrow> Some (v # vs))))"
  by pat_completeness auto
termination
  by (relation "measures
        [\<lambda>x. case x of
               Inl (g, pidx, n, mp, depth) \<Rightarrow> nat depth
             | Inr (g, pidx, n, mp, depth, acts) \<Rightarrow> nat depth,
         \<lambda>x. case x of
               Inl (g, pidx, n, mp, depth) \<Rightarrow> (if depth \<le> 0 then 0 else 2)
             | Inr (g, pidx, n, mp, depth, acts) \<Rightarrow> 1,
         \<lambda>x. case x of
               Inl (g, pidx, n, mp, depth) \<Rightarrow> 0
             | Inr (g, pidx, n, mp, depth, acts) \<Rightarrow> length acts]")
    auto

text \<open>The value \<open>x\<close> seen through the window from \<open>a\<close> to \<open>b\<close>: a search with that window
  determines the value of a node only up to this clipping.\<close>

definition clip :: "int \<Rightarrow> int \<Rightarrow> int \<Rightarrow> int" where
  "clip a b x = max a (min b x)"

section \<open>Concrete configurations\<close>

text \<open>\<open>Hex(col, row)\<close> as the constructor leaves it, a land cell of an owner holding a
  unit, and \<open>HexGrid(width, height)\<close>.\<close>

definition blank_hex :: Hex where
  "blank_hex = \<lparr>is_land = False, owner = -1, unit = NONE, has_capital = False,
     has_castle = False, grave = False, can_move = False\<rparr>"

definition land_hex :: "int \<Rightarrow> UnitType \<Rightarrow> Hex" where
  "land_hex ow u = blank_hex\<lparr>is_land := True, owner := ow, unit := u\<rparr>"

definition HexGrid_init :: "int \<Rightarrow> int \<Rightarrow> HexGrid" where
  "HexGrid_init w h = \<lparr>width = w, height = h, hexes = (\<lambda>_. blank_hex)\<rparr>"

text \<open>A column of three land cells of player 0: the capital, a spearman and an empty cell,
  with one gold in the treasury.\<close>

definition bankrupt_grid :: HexGrid where
  "bankrupt_grid = \<lparr>width = 1, height = 3,
     hexes = (\<lambda>_. blank_hex)((0, 0) := (land_hex 0 NONE)\<lparr>has_capital := True\<rparr>,
        (0, 1) := land_hex 0 SPEARMAN, (0, 2) := land_hex 0 NONE)\<rparr>"

definition bankrupt_territory :: Territory where
  "bankrupt_territory =
     \<lparr>t_hexes = [(0, 0), (0, 1), (0, 2)], t_owner = 0, gold = 1, capital_ref = Some (0, 0)\<rparr>"

text \<open>A column of seven land cells. Player 0 owns the first six: the capital, a movable
  knight, a peasant, a baron, a pine and a grave; player 1 owns the last one, with a
  peasant on it.\<close>

definition column_grid :: HexGrid where
  "column_grid = \<lparr>width = 1, height = 7,
     hexes = (\<lambda>_. blank_hex)((0, 0) := (land_hex 0 NONE)\<lparr>has_capital := True\<rparr>,
        (0, 1) := (land_hex 0 KNIGHT)\<lparr>can_move := True\<rparr>,
        (0, 2) := land_hex 0 PEASANT,
        (0, 3) := land_hex 0 BARON,
        (0, 4) := land_hex 0 TREE_PINE,
        (0, 5) := (land_hex 0 NONE)\<lparr>grave := True\<rparr>,
        (0, 6) := land_hex 1 PEASANT)\<rparr>"

definition column_state :: GameState where
  "column_state = \<lparr>grid = column_grid,
     players = [\<lparr>p_id = 0, alive = True, is_human = False\<rparr>,
                \<lparr>p_id = 1, alive = True, is_human = False\<rparr>],
     territories =
       [\<lparr>t_hexes = [(0, 0), (0, 1), (0, 2), (0, 3), (0, 4), (0, 5)], t_owner = 0, gold = 20,
          capital_ref = Some (0, 0)\<rparr>,
        \<lparr>t_hexes = [(0, 6)], t_owner = 1, gold = 0, capital_ref = None\<rparr>],
     current_player_idx = 0, turn_number = 1, game_over = False, winner = None\<rparr>"

text \<open>A column of three land cells: a movable spearman of player 0, then a peasant of
  player 1, then an empty cell of player 1.\<close>

definition duel_grid :: HexGrid where
  "duel_grid = \<lparr>width = 1, height = 3,
     hexes = (\<lambda>_. blank_hex)((0, 0) := (land_hex 0 SPEARMAN)\<lparr>can_move := True\<rparr>,
        (0, 1) := land_hex 1 PEASANT, (0, 2) := land_hex 1 NONE)\<rparr>"

text \<open>A three by three island of player 0 whose centre \<open>(1, 1)\<close> is the only cell that is
  not coastal: a grave at \<open>(0, 0)\<close>, pines at \<open>(1, 0)\<close> and \<open>(2, 1)\<close>, a palm at \<open>(2, 2)\<close>.\<close>

definition tree_grid :: HexGrid where
  "tree_grid = \<lparr>width = 3, height = 3,
     hexes = (\<lambda>_. land_hex 0 NONE)((0, 0) := (land_hex 0 NONE)\<lparr>grave := True\<rparr>,
        (1, 0) := land_hex 0 TREE_PINE, (2, 1) := land_hex 0 TREE_PINE,
        (2, 2) := land_hex 0 TREE_PALM)\<rparr>"

text \<open>Two territories of player 0, each with its capital, separated by one neutral cell
  that the peasant on \<open>(0, 1)\<close> can capture; \<open>merge_mid\<close> is that state after the grid
  mutations of the capture, just before \<open>move_unit\<close> calls \<open>refresh_territories\<close>.
  \<open>single_state\<close> is the same situation with a single-cell territory, which has no
  capital, on the far side: every territory was given 10 gold, as \<open>setup_random_map\<close>
  does, and the larger one has since bought the peasant.\<close>

definition merge_state :: GameState where
  "merge_state = \<lparr>grid = \<lparr>width = 1, height = 5,
       hexes = (\<lambda>_. blank_hex)((0, 0) := (land_hex 0 NONE)\<lparr>has_capital := True\<rparr>,
          (0, 1) := (land_hex 0 PEASANT)\<lparr>can_move := True\<rparr>,
          (0, 2) := land_hex (- 1) NONE,
          (0, 3) := land_hex 0 NONE,
          (0, 4) := (land_hex 0 NONE)\<lparr>has_capital := True\<rparr>)\<rparr>,
     players = [\<lparr>p_id = 0, alive = True, is_human = False\<rparr>,
                \<lparr>p_id = 1, alive = True, is_human = False\<rparr>],
     territories =
       [\<lparr>t_hexes = [(0, 0), (0, 1)], t_owner = 0, gold = 3, capital_ref = Some (0, 0)\<rparr>,
        \<lparr>t_hexes = [(0, 3), (0, 4)], t_owner = 0, gold = 4, capital_ref = Some (0, 4)\<rparr>],
     current_player_idx = 0, turn_number = 1, game_over = False, winner = None\<rparr>"

definition merge_mid :: GameState where
  "merge_mid = merge_state\<lparr>grid :=
     upd_hex (0, 1) clear_unit
       (upd_hex (0, 2) (\<lambda>x. x\<lparr>owner := 0, unit := PEASANT, has_capital := False,
          has_castle := False, grave := False, can_move := False\<rparr>) (grid merge_state))\<rparr>"

definition single_state :: GameState where
  "single_state = \<lparr>grid = \<lparr>width = 1, height = 4,
       hexes = (\<lambda>_. blank_hex)((0, 0) := (land_hex 0 NONE)\<lparr>has_capital := True\<rparr>,
          (0, 1) := (land_hex 0 PEASANT)\<lparr>can_move := True\<rparr>,
          (0, 2) := land_hex (- 1) NONE,
          (0, 3) := land_hex 0 NONE)\<rparr>,
     players = [\<lparr>p_id = 0, alive = True, is_human = False\<rparr>,
                \<lparr>p_id = 1, alive = True, is_human = False\<rparr>],
     territories =
       [\<lparr>t_hexes = [(0, 0), (0, 1)], t_owner = 0, gold = 0, capital_ref = Some (0, 0)\<rparr>,
        \<lparr>t_hexes = [(0, 3)], t_owner = 0, gold = 10, capital_ref = None\<rparr>],
     current_player_idx = 0, turn_number = 0, game_over = False, winner = None\<rparr>"

text \<open>\<open>lone_state\<close> is the same situation during a later turn: the single-cell territory
  has an empty treasury and the larger one holds 5 gold; \<open>lone_mid\<close> is that state after
  the grid mutations of the capture. \<open>fresh_state\<close> is the column as \<open>setup_random_map\<close>
  leaves it, before any unit has been bought.\<close>

definition lone_state :: GameState where
  "lone_state = single_state\<lparr>territories :=
       [\<lparr>t_hexes = [(0, 0), (0, 1)], t_owner = 0, gold = 5, capital_ref = Some (0, 0)\<rparr>,
        \<lparr>t_hexes = [(0, 3)], t_owner = 0, gold = 0, capital_ref = None\<rparr>], turn_number := 1\<rparr>"

definition lone_mid :: GameState where
  "lone_mid = lone_state\<lparr>grid :=
     upd_hex (0, 1) clear_unit
       (upd_hex (0, 2) (\<lambda>x. x\<lparr>owner := 0, unit := PEASANT, has_capital := False,
          has_castle := False, grave := False, can_move := False\<rparr>) (grid lone_state))\<rparr>"

definition fresh_state :: GameState where
  "fresh_state = \<lparr>grid = \<lparr>width = 1, height = 4,
       hexes = (\<lambda>_. blank_hex)((0, 0) := (land_hex 0 NONE)\<lparr>has_capital := True\<rparr>,
          (0, 1) := land_hex 0 NONE,
          (0, 2) := land_hex (- 1) NONE,
          (0, 3) := land_hex 0 NONE)\<rparr>,
     players = [\<lparr>p_id = 0, alive = True, is_human = False\<rparr>,
                \<lparr>p_id = 1, alive = True, is_human = False\<rparr>],
     territories =
       [\<lparr>t_hexes = [(0, 0), (0, 1)], t_owner = 0, gold = 10, capital_ref = Some (0, 0)\<rparr>,
        \<lparr>t_hexes = [(0, 3)], t_owner = 0, gold = 10, capital_ref = None\<rparr>],
     current_player_idx = 0, turn_number = 0, game_over = False, winner = None\<rparr>"

section \<open>Basic facts about the store\<close>

lemma in_grid_upd_hex [simp]: "in_grid (upd_hex p f g) q = in_grid g q"
  by (simp add: in_grid_def upd_hex_def)

lemma grid_keys_upd_hex [simp]: "grid_keys (upd_hex p f g) = grid_keys g"
  by (simp add: grid_keys_def upd_hex_def)

lemma hexes_upd_hex: "hexes (upd_hex p f g) q = (if q = p then f (hexes g p) else hexes g q)"
  by (simp add: upd_hex_def)

lemma width_upd_hex [simp]: "width (upd_hex p f g) = width g"
  and height_upd_hex [simp]: "height (upd_hex p f g) = height g"
  by (simp_all add: upd_hex_def)

lemma HexGrid_eqI:
  "width a = width b \<Longrightarrow> height a = height b \<Longrightarrow> hexes a = hexes b \<Longrightarrow> (a::HexGrid) = b"
  by simp

section \<open>Income and bankruptcy\<close>

lemma kill_unit_idem: "kill_unit (kill_unit h) = kill_unit h"
  by (simp add: kill_unit_def has_combat_unit_def)

lemma hexes_kill_units:
  "hexes (kill_units ps g) p = (if p \<in> set ps then kill_unit (hexes g p) else hexes g p)"
  by (induction ps arbitrary: g) (auto simp: upd_hex_def kill_unit_idem)

text \<open>Claim C5. \<open>collect_income\<close> returns true exactly when the treasury plus the net
  income is negative. In that case the treasury is 0 afterwards and every member cell that
  held a combat unit has no unit and is a grave; otherwise the grid is untouched and the
  net income has been added to the treasury.\<close>

theorem collect_income_bankruptcy:
  "fst (collect_income g t) = (gold t + net_income g t < 0) \<and>
   (gold t + net_income g t < 0 \<longrightarrow>
      gold (snd (snd (collect_income g t))) = 0 \<and>
      (\<forall>p \<in> set (t_hexes t). has_combat_unit (hexes g p) \<longrightarrow>
         unit (hexes (fst (snd (collect_income g t))) p) = NONE \<and>
         grave (hexes (fst (snd (collect_income g t))) p))) \<and>
   (\<not> gold t + net_income g t < 0 \<longrightarrow>
      snd (collect_income g t) = (g, t\<lparr>gold := gold t + net_income g t\<rparr>))"
  by (simp add: collect_income_def go_bankrupt_def Let_def hexes_kill_units kill_unit_def)

theorem collect_income_bankruptcy_witness:
  "gold bankrupt_territory + net_income bankrupt_grid bankrupt_territory < 0 \<and>
   fst (collect_income bankrupt_grid bankrupt_territory) \<and>
   gold (snd (snd (collect_income bankrupt_grid bankrupt_territory))) = 0 \<and>
   (0, 1) \<in> set (t_hexes bankrupt_territory) \<and>
   has_combat_unit (hexes bankrupt_grid (0, 1)) \<and>
   grave (hexes (fst (snd (collect_income bankrupt_grid bankrupt_territory))) (0, 1))"
proof -
  have b: "gold bankrupt_territory + net_income bankrupt_grid bankrupt_territory < 0"
    by (simp add: bankrupt_territory_def bankrupt_grid_def net_income_def income_def wages_def
        produces_income_def has_tree_def land_hex_def blank_hex_def)
  have m: "(0, 1) \<in> set (t_hexes bankrupt_territory)"
    by (simp add: bankrupt_territory_def)
  have u: "has_combat_unit (hexes bankrupt_grid (0, 1))"
    by (simp add: bankrupt_grid_def has_combat_unit_def land_hex_def blank_hex_def)
  from collect_income_bankruptcy [of bankrupt_grid bankrupt_territory] b m u
  show ?thesis by auto
qed

section \<open>Combining units\<close>

lemmas column_defs = column_state_def column_grid_def land_hex_def blank_hex_def
  current_player_def has_combat_unit_def

lemma combine_units_Some:
  "combine_units a b = Some c \<Longrightarrow> unit_power c = unit_power a + unit_power b \<and> unit_power c \<le> 4"
  by (cases a; cases b) (auto simp: combine_units_def UnitType_of_def Let_def split: if_splits)

lemma combine_units_None:
  "unit_power a + unit_power b > 4 \<Longrightarrow> combine_units a b = None"
  by (simp add: combine_units_def Let_def)

lemma has_combat_unit_power: "has_combat_unit h \<longleftrightarrow> unit_power (unit h) \<noteq> 0"
  by (cases "unit h") (auto simp: has_combat_unit_def)

text \<open>Claim C7. \<open>combine_units\<close> yields a unit whose power is the sum of the two powers
  and at most 4. A \<open>move_unit\<close> onto a friendly unit and a \<open>buy_peasant\<close> onto a unit
  are rejected with the state unchanged when the summed powers exceed 4; when they succeed,
  the target cell holds a unit of the summed power, which is at most 4.\<close>

theorem combine_cap:
  "(\<forall>c. combine_units a b = Some c \<longrightarrow>
        unit_power c = unit_power a + unit_power b \<and> unit_power c \<le> 4) \<and>
   (current_player s = Some pl \<and> owner (hexes (grid s) t) = p_id pl \<and>
    has_combat_unit (hexes (grid s) t) \<and>
    unit_power (unit (hexes (grid s) f)) + unit_power (unit (hexes (grid s) t)) > 4
      \<longrightarrow> move_unit s f t = Some (False, s)) \<and>
   (current_player s = Some pl \<and> ti < length (territories s) \<and>
    has_combat_unit (hexes (grid s) t) \<and>
    unit_power (unit (hexes (grid s) t)) + unit_power PEASANT > 4
      \<longrightarrow> buy_peasant s ti t = Some (False, s)) \<and>
   (\<forall>s'. current_player s = Some pl \<and> owner (hexes (grid s) t) = p_id pl \<and>
    has_combat_unit (hexes (grid s) t) \<and> f \<noteq> t \<and> move_unit s f t = Some (True, s')
      \<longrightarrow> unit_power (unit (hexes (grid s') t)) =
            unit_power (unit (hexes (grid s) f)) + unit_power (unit (hexes (grid s) t)) \<and>
          unit_power (unit (hexes (grid s') t)) \<le> 4) \<and>
   (\<forall>s'. has_combat_unit (hexes (grid s) t) \<and> buy_peasant s ti t = Some (True, s')
      \<longrightarrow> unit_power (unit (hexes (grid s') t)) =
            unit_power (unit (hexes (grid s) t)) + unit_power PEASANT \<and>
          unit_power (unit (hexes (grid s') t)) \<le> 4)"
proof (intro conjI impI allI)
  fix c assume "combine_units a b = Some c"
  then show "unit_power c = unit_power a + unit_power b" "unit_power c \<le> 4"
    using combine_units_Some by blast+
next
  assume a: "current_player s = Some pl \<and> owner (hexes (grid s) t) = p_id pl \<and>
    has_combat_unit (hexes (grid s) t) \<and>
    unit_power (unit (hexes (grid s) f)) + unit_power (unit (hexes (grid s) t)) > 4"
  then have "combine_units (unit (hexes (grid s) t)) (unit (hexes (grid s) f)) = None"
    by (intro combine_units_None) simp
  with a show "move_unit s f t = Some (False, s)"
    by (auto simp: move_unit_def Let_def move_within_def split: option.splits)
next
  assume a: "current_player s = Some pl \<and> ti < length (territories s) \<and>
    has_combat_unit (hexes (grid s) t) \<and>
    unit_power (unit (hexes (grid s) t)) + unit_power PEASANT > 4"
  then have "combine_units (unit (hexes (grid s) t)) PEASANT = None"
    by (intro combine_units_None) simp
  with a show "buy_peasant s ti t = Some (False, s)"
    by (auto simp: buy_peasant_def Let_def split: option.splits)
next
  fix s'
  assume a: "current_player s = Some pl \<and> owner (hexes (grid s) t) = p_id pl \<and>
    has_combat_unit (hexes (grid s) t) \<and> f \<noteq> t \<and> move_unit s f t = Some (True, s')"
  then obtain c where c: "combine_units (unit (hexes (grid s) t)) (unit (hexes (grid s) f)) = Some c"
    and u: "unit (hexes (grid s') t) = c"
    by (auto simp: move_unit_def Let_def move_within_def upd_hex_def
        split: option.splits if_splits)
  from combine_units_Some [OF c] u
  show "unit_power (unit (hexes (grid s') t)) =
            unit_power (unit (hexes (grid s) f)) + unit_power (unit (hexes (grid s) t))"
    and "unit_power (unit (hexes (grid s') t)) \<le> 4"
    by simp_all
next
  fix s'
  assume a: "has_combat_unit (hexes (grid s) t) \<and> buy_peasant s ti t = Some (True, s')"
  then obtain c where c: "combine_units (unit (hexes (grid s) t)) PEASANT = Some c"
    and u: "unit (hexes (grid s') t) = c"
    by (auto simp: buy_peasant_def Let_def upd_hex_def split: option.splits if_splits)
  from combine_units_Some [OF c] u
  show "unit_power (unit (hexes (grid s') t)) =
            unit_power (unit (hexes (grid s) t)) + unit_power PEASANT"
    and "unit_power (unit (hexes (grid s') t)) \<le> 4"
    by simp_all
qed

theorem combine_cap_witness:
  "combine_units PEASANT PEASANT = Some SPEARMAN \<and>
   unit_power SPEARMAN = unit_power PEASANT + unit_power PEASANT \<and>
   move_unit column_state (0, 1) (0, 3) = Some (False, column_state) \<and>
   buy_peasant column_state 0 (0, 3) = Some (False, column_state) \<and>
   fst (the (move_unit column_state (0, 1) (0, 2))) \<and>
   unit_power (unit (hexes (grid (snd (the (move_unit column_state (0, 1) (0, 2))))) (0, 2))) = 4 \<and>
   fst (the (buy_peasant column_state 0 (0, 2))) \<and>
   unit_power (unit (hexes (grid (snd (the (buy_peasant column_state 0 (0, 2))))) (0, 2))) = 2"
proof -
  note cc = combine_cap [where s = column_state and pl = "players column_state ! 0"
      and ti = 0]
  have cp: "current_player column_state = Some (players column_state ! 0)"
    by (simp add: column_defs)
  have 1: "combine_units PEASANT PEASANT = Some SPEARMAN"
    by (simp add: combine_units_def UnitType_of_def)
  from combine_cap [of PEASANT PEASANT] 1
  have 2: "unit_power SPEARMAN = unit_power PEASANT + unit_power PEASANT" by blast
  have h3: "owner (hexes (grid column_state) (0, 3)) = p_id (players column_state ! 0) \<and>
      has_combat_unit (hexes (grid column_state) (0, 3)) \<and>
      unit_power (unit (hexes (grid column_state) (0, 1)))
        + unit_power (unit (hexes (grid column_state) (0, 3))) > 4"
    by (simp add: column_defs)
  from cc [where f = "(0, 1)" and t = "(0, 3)"] cp h3
  have 3: "move_unit column_state (0, 1) (0, 3) = Some (False, column_state)" by blast
  have h4: "0 < length (territories column_state) \<and>
      unit_power (unit (hexes (grid column_state) (0, 3))) + unit_power PEASANT > 4"
    by (simp add: column_defs)
  from cc [where t = "(0, 3)"] cp h3 h4
  have 4: "buy_peasant column_state 0 (0, 3) = Some (False, column_state)" by blast
  have m: "move_unit column_state (0, 1) (0, 2) =
      Some (True, snd (the (move_unit column_state (0, 1) (0, 2))))"
    by (simp add: column_defs move_unit_def Let_def move_within_def combine_units_def
        UnitType_of_def)
  have h5: "owner (hexes (grid column_state) (0, 2)) = p_id (players column_state ! 0) \<and>
      has_combat_unit (hexes (grid column_state) (0, 2)) \<and> (0, 1) \<noteq> ((0, 2) :: pos)"
    by (simp add: column_defs)
  from cc [where f = "(0, 1)" and t = "(0, 2)"] cp h5 m
  have "unit_power (unit (hexes (grid (snd (the (move_unit column_state (0, 1) (0, 2))))) (0, 2))) =
      unit_power (unit (hexes (grid column_state) (0, 1)))
        + unit_power (unit (hexes (grid column_state) (0, 2)))" by blast
  then have 5: "unit_power (unit (hexes (grid (snd (the (move_unit column_state (0, 1) (0, 2)))))
      (0, 2))) = 4"
    by (simp add: column_defs)
  have b: "buy_peasant column_state 0 (0, 2) =
      Some (True, snd (the (buy_peasant column_state 0 (0, 2))))"
    by (simp add: column_defs buy_peasant_def Let_def PEASANT_COST_def combine_units_def
        UnitType_of_def)
  from cc [where t = "(0, 2)"] h5 b
  have "unit_power (unit (hexes (grid (snd (the (buy_peasant column_state 0 (0, 2))))) (0, 2))) =
      unit_power (unit (hexes (grid column_state) (0, 2))) + unit_power PEASANT" by blast
  then have 6: "unit_power (unit (hexes (grid (snd (the (buy_peasant column_state 0 (0, 2)))))
      (0, 2))) = 2"
    by (simp add: column_defs)
  from m have 7: "fst (the (move_unit column_state (0, 1) (0, 2)))" by (metis fst_conv option.sel)
  from b have 8: "fst (the (buy_peasant column_state 0 (0, 2)))" by (metis fst_conv option.sel)
  from 1 2 3 4 5 6 7 8 show ?thesis by blast
qed

section \<open>Legality of moves and purchases\<close>

lemma unit_power_nonneg: "0 \<le> unit_power u"
  by (cases u) auto

lemma defense_power_spec: "defense_power h = spec_defense_power h"
  using unit_power_nonneg [of "unit h"]
  by (auto simp: defense_power_def spec_defense_power_def Let_def CAPITAL_DEFENSE_def
      CASTLE_DEFENSE_def)

lemma Max_insert_max:
  "finite S \<Longrightarrow> Max (insert (max a b) S) = Max (insert (a::int) (insert b S))"
  by (cases "S = {}") (simp_all add: max.assoc)

lemma relative_power_loop_Max:
  "relative_power_loop g ow ns pw =
     Max (insert pw ((\<lambda>n. defense_power (hexes g n)) `
                        set (filter (\<lambda>n. owner (hexes g n) = ow) ns)))"
proof (induction ns arbitrary: pw)
  case Nil
  then show ?case by simp
next
  case (Cons n ns)
  let ?S = "(\<lambda>n. defense_power (hexes g n)) ` set (filter (\<lambda>n. owner (hexes g n) = ow) ns)"
  have fin: "finite ?S" by simp
  show ?case
  proof (cases "owner (hexes g n) = ow")
    case True
    have "Max (insert (max pw (defense_power (hexes g n))) ?S) =
          Max (insert pw (insert (defense_power (hexes g n)) ?S))"
      using fin by (rule Max_insert_max)
    with True Cons.IH show ?thesis by simp
  next
    case False
    with Cons.IH show ?thesis by simp
  qed
qed

lemma get_relative_power_spec: "get_relative_power g p = spec_relative_power g p"
  by (simp add: get_relative_power_def spec_relative_power_def relative_power_loop_Max
      defense_power_spec)

text \<open>Claim C3. When the current player's movable combat unit on \<open>f\<close> is moved to a land
  cell \<open>t\<close> of another owner that is adjacent to the unit's territory, \<open>move_unit\<close>
  succeeds if and only if the unit's power strictly exceeds the relative power of \<open>t\<close>,
  and otherwise returns \<open>False\<close> with the state unchanged. The relative power and the
  defense power computed by the code are those of the specification.\<close>

theorem attack_needs_superior_power:
  assumes "current_player s = Some pl"
    and "owner (hexes (grid s) f) = p_id pl"
    and "has_combat_unit (hexes (grid s) f)"
    and "can_move (hexes (grid s) f)"
    and "is_land (hexes (grid s) t)"
    and "find (\<lambda>tr. t_owner tr = p_id pl \<and> f \<in> set (t_hexes tr)) (territories s) = Some st"
    and "list_ex (\<lambda>h. t \<in> set (get_neighbors (grid s) h)) (t_hexes st)"
    and "owner (hexes (grid s) t) \<noteq> p_id pl"
  shows "((\<exists>s'. move_unit s f t = Some (True, s')) \<longleftrightarrow>
           unit_power (unit (hexes (grid s) f)) > spec_relative_power (grid s) t) \<and>
         (\<not> unit_power (unit (hexes (grid s) f)) > spec_relative_power (grid s) t \<longrightarrow>
           move_unit s f t = Some (False, s)) \<and>
         get_relative_power (grid s) t = spec_relative_power (grid s) t \<and>
         defense_power (hexes (grid s) t) = spec_defense_power (hexes (grid s) t)"
proof -
  from assms(7)
  have adj: "list_ex (\<lambda>h. list_ex (\<lambda>n. n = t) (get_neighbors (grid s) h)) (t_hexes st)"
    by (auto simp: list_ex_iff)
  show ?thesis
    using assms adj
    by (simp add: move_unit_def Let_def get_relative_power_spec [symmetric] defense_power_spec)
qed

theorem attack_needs_superior_power_witness:
  "(\<exists>s'. move_unit column_state (0, 1) (0, 6) = Some (True, s')) \<and>
   spec_relative_power (grid column_state) (0, 6) = 1 \<and>
   unit_power (unit (hexes (grid column_state) (0, 1))) = 3"
proof -
  have rp: "spec_relative_power (grid column_state) (0, 6) = 1"
    by (simp add: column_defs spec_relative_power_def spec_defense_power_def get_neighbors_def
        NEIGHBOR_DIRS_EVEN_def in_grid_def)
  have up: "unit_power (unit (hexes (grid column_state) (0, 1))) = 3"
    by (simp add: column_defs)
  have "(\<exists>s'. move_unit column_state (0, 1) (0, 6) = Some (True, s')) \<longleftrightarrow>
           unit_power (unit (hexes (grid column_state) (0, 1))) >
           spec_relative_power (grid column_state) (0, 6)"
    using attack_needs_superior_power [of column_state "players column_state ! 0" "(0, 1)"
        "(0, 6)" "territories column_state ! 0"]
    by (simp add: column_defs get_neighbors_def NEIGHBOR_DIRS_EVEN_def in_grid_def)
  with rp up show ?thesis by simp
qed

text \<open>Claim C4. Whenever \<open>buy_peasant\<close>, \<open>buy_castle\<close> or \<open>move_unit\<close> returns \<open>False\<close>, the
  state after the call (grid, territories, treasuries and everything else) is the state
  before it.\<close>

theorem no_mutation_on_failure:
  "(\<forall>s'. buy_peasant s ti p = Some (False, s') \<longrightarrow> s' = s) \<and>
   (\<forall>s'. buy_castle s ti p = Some (False, s') \<longrightarrow> s' = s) \<and>
   (\<forall>s'. move_unit s f p = Some (False, s') \<longrightarrow> s' = s)"
proof (intro conjI impI allI)
  fix s' assume "buy_peasant s ti p = Some (False, s')"
  then show "s' = s"
    by (auto simp: buy_peasant_def Let_def split: option.splits if_splits)
next
  fix s' assume "buy_castle s ti p = Some (False, s')"
  then show "s' = s"
    by (auto simp: buy_castle_def Let_def split: option.splits if_splits)
next
  fix s' assume "move_unit s f p = Some (False, s')"
  then show "s' = s"
    by (auto simp: move_unit_def Let_def split: option.splits if_splits)
qed

theorem no_mutation_on_failure_witness:
  "fst (the (buy_peasant column_state 0 (0, 3))) = False \<and>
   snd (the (buy_peasant column_state 0 (0, 3))) = column_state \<and>
   fst (the (buy_castle column_state 0 (0, 0))) = False \<and>
   snd (the (buy_castle column_state 0 (0, 0))) = column_state \<and>
   fst (the (move_unit column_state (0, 1) (0, 3))) = False \<and>
   snd (the (move_unit column_state (0, 1) (0, 3))) = column_state"
proof -
  have a: "buy_peasant column_state 0 (0, 3) =
      Some (False, snd (the (buy_peasant column_state 0 (0, 3))))"
    by (simp add: column_defs buy_peasant_def Let_def PEASANT_COST_def combine_units_def)
  have b: "buy_castle column_state 0 (0, 0) =
      Some (False, snd (the (buy_castle column_state 0 (0, 0))))"
    by (simp add: column_defs buy_castle_def Let_def CASTLE_COST_def)
  have c: "move_unit column_state (0, 1) (0, 3) =
      Some (False, snd (the (move_unit column_state (0, 1) (0, 3))))"
    by (simp add: column_defs move_unit_def Let_def move_within_def combine_units_def)
  from no_mutation_on_failure [where s = column_state and ti = 0 and p = "(0, 3)"] a
  have 1: "snd (the (buy_peasant column_state 0 (0, 3))) = column_state" by blast
  from no_mutation_on_failure [where s = column_state and ti = 0 and p = "(0, 0)"] b
  have 2: "snd (the (buy_castle column_state 0 (0, 0))) = column_state" by blast
  from no_mutation_on_failure [where s = column_state and f = "(0, 1)" and p = "(0, 3)"] c
  have 3: "snd (the (move_unit column_state (0, 1) (0, 3))) = column_state" by blast
  from a have 4: "fst (the (buy_peasant column_state 0 (0, 3))) = False"
    by (metis fst_conv option.sel)
  from b have 5: "fst (the (buy_castle column_state 0 (0, 0))) = False"
    by (metis fst_conv option.sel)
  from c have 6: "fst (the (move_unit column_state (0, 1) (0, 3))) = False"
    by (metis fst_conv option.sel)
  from 1 2 3 4 5 6 show ?thesis by blast
qed

lemma buy_peasant_actions_type:
  "a \<in> set (buy_peasant_actions g i t) \<Longrightarrow> a_type a = BUY_PEASANT"
  by (auto simp: buy_peasant_actions_def split: if_splits option.splits)

lemma move_unit_actions_type:
  "a \<in> set (move_unit_actions g pid t) \<Longrightarrow> a_type a = MOVE_UNIT"
  by (auto simp: move_unit_actions_def Let_def split: if_splits option.splits)

lemma buy_castle_actions_target:
  "a \<in> set (buy_castle_actions g i t) \<Longrightarrow> to_pos a = Some h \<Longrightarrow>
   is_empty_land (hexes g h) \<or> grave (hexes g h)"
  by (auto simp: buy_castle_actions_def split: if_splits)

text \<open>Claim C10. In a territory of the current player holding at least the castle cost,
  \<open>buy_castle\<close> on a member land cell without castle or capital that holds a tree, or that
  is a grave with no unit on it, succeeds: afterwards the cell has a castle, no unit (so
  no tree) and no grave flag, and the treasury is 15 lower. Yet for a tree cell that is
  not a grave, \<open>get_legal_actions\<close> lists no \<open>BUY_CASTLE\<close> action on that cell.\<close>

theorem buy_castle_on_tree_or_grave:
  assumes "current_player s = Some pl"
    and "ti < length (territories s)"
    and "t_owner (territories s ! ti) = p_id pl"
    and "gold (territories s ! ti) \<ge> CASTLE_COST"
    and "target \<in> set (t_hexes (territories s ! ti))"
    and "is_land (hexes (grid s) target)"
    and "\<not> has_castle (hexes (grid s) target)" and "\<not> has_capital (hexes (grid s) target)"
    and "has_tree (hexes (grid s) target) \<or>
         (grave (hexes (grid s) target) \<and> unit (hexes (grid s) target) = NONE)"
  shows "(\<exists>s'. buy_castle s ti target = Some (True, s') \<and>
            has_castle (hexes (grid s') target) \<and>
            unit (hexes (grid s') target) = NONE \<and>
            \<not> grave (hexes (grid s') target) \<and>
            \<not> has_tree (hexes (grid s') target) \<and>
            gold (territories s' ! ti) = gold (territories s ! ti) - 15) \<and>
         (has_tree (hexes (grid s) target) \<and> \<not> grave (hexes (grid s) target) \<longrightarrow>
            (\<exists>acts. get_legal_actions s = Some acts \<and>
               (\<forall>a \<in> set acts. \<not> (a_type a = BUY_CASTLE \<and> to_pos a = Some target))))"
proof (intro conjI impI)
  from assms(9) have "\<not> has_combat_unit (hexes (grid s) target)"
    by (auto simp: has_tree_def has_combat_unit_def)
  with assms show "\<exists>s'. buy_castle s ti target = Some (True, s') \<and>
            has_castle (hexes (grid s') target) \<and>
            unit (hexes (grid s') target) = NONE \<and>
            \<not> grave (hexes (grid s') target) \<and>
            \<not> has_tree (hexes (grid s') target) \<and>
            gold (territories s' ! ti) = gold (territories s ! ti) - 15"
    by (simp add: buy_castle_def Let_def upd_hex_def has_tree_def CASTLE_COST_def)
next
  assume tr: "has_tree (hexes (grid s) target) \<and> \<not> grave (hexes (grid s) target)"
  then have ne: "\<not> (is_empty_land (hexes (grid s) target) \<or> grave (hexes (grid s) target))"
    by (auto simp: has_tree_def is_empty_land_def)
  obtain acts where acts: "get_legal_actions s = Some acts"
    using assms(1) by (simp add: get_legal_actions_def Let_def)
  have "\<not> (a_type a = BUY_CASTLE \<and> to_pos a = Some target)" if "a \<in> set acts" for a
  proof
    assume bc: "a_type a = BUY_CASTLE \<and> to_pos a = Some target"
    from that acts assms(1) bc
    have "\<exists>i t. a \<in> set (buy_peasant_actions (grid s) i t)
        \<or> a \<in> set (buy_castle_actions (grid s) i t)
        \<or> a \<in> set (move_unit_actions (grid s) (p_id pl) t)"
      by (auto simp: get_legal_actions_def Let_def; blast)
    then obtain i t where "a \<in> set (buy_peasant_actions (grid s) i t)
        \<or> a \<in> set (buy_castle_actions (grid s) i t)
        \<or> a \<in> set (move_unit_actions (grid s) (p_id pl) t)" by blast
    with bc ne show False
      using buy_peasant_actions_type move_unit_actions_type buy_castle_actions_target
      by (metis ActionType.distinct(1,7))
  qed
  with acts show "\<exists>acts. get_legal_actions s = Some acts \<and>
               (\<forall>a \<in> set acts. \<not> (a_type a = BUY_CASTLE \<and> to_pos a = Some target))"
    by blast
qed

theorem buy_castle_on_tree_or_grave_witness:
  "fst (the (buy_castle column_state 0 (0, 4))) \<and>
   has_tree (hexes (grid column_state) (0, 4)) \<and>
   has_castle (hexes (grid (snd (the (buy_castle column_state 0 (0, 4))))) (0, 4)) \<and>
   \<not> has_tree (hexes (grid (snd (the (buy_castle column_state 0 (0, 4))))) (0, 4)) \<and>
   gold (territories (snd (the (buy_castle column_state 0 (0, 4)))) ! 0) = 5 \<and>
   fst (the (buy_castle column_state 0 (0, 5))) \<and>
   grave (hexes (grid column_state) (0, 5)) \<and>
   \<not> grave (hexes (grid (snd (the (buy_castle column_state 0 (0, 5))))) (0, 5)) \<and>
   (\<exists>acts. get_legal_actions column_state = Some acts \<and>
      \<lparr>a_type = BUY_CASTLE, from_pos = None, to_pos = Some (0, 4), territory_idx = Some 0\<rparr>
        \<notin> set acts)"
proof -
  note bc = buy_castle_on_tree_or_grave [where s = column_state and ti = 0
      and pl = "players column_state ! 0"]
  have cp: "current_player column_state = Some (players column_state ! 0)"
    and ti: "0 < length (territories column_state)"
    and ow: "t_owner (territories column_state ! 0) = p_id (players column_state ! 0)"
    and gd: "gold (territories column_state ! 0) \<ge> CASTLE_COST"
    by (simp_all add: column_defs CASTLE_COST_def)
  have tree: "has_tree (hexes (grid column_state) (0, 4))"
    and ntree: "\<not> grave (hexes (grid column_state) (0, 4))"
    and mem4: "(0, 4) \<in> set (t_hexes (territories column_state ! 0))"
    and land4: "is_land (hexes (grid column_state) (0, 4))"
    and nc4: "\<not> has_castle (hexes (grid column_state) (0, 4))"
      "\<not> has_capital (hexes (grid column_state) (0, 4))"
    by (simp_all add: column_defs has_tree_def)
  have gr: "grave (hexes (grid column_state) (0, 5))"
    and nu: "unit (hexes (grid column_state) (0, 5)) = NONE"
    and mem5: "(0, 5) \<in> set (t_hexes (territories column_state ! 0))"
    and land5: "is_land (hexes (grid column_state) (0, 5))"
    and nc5: "\<not> has_castle (hexes (grid column_state) (0, 5))"
      "\<not> has_capital (hexes (grid column_state) (0, 5))"
    by (simp_all add: column_defs)
  from bc [where target = "(0, 4)", OF cp ti ow gd mem4 land4 nc4] tree ntree
  have 1: "(\<exists>s'. buy_castle column_state 0 (0, 4) = Some (True, s') \<and>
            has_castle (hexes (grid s') (0, 4)) \<and>
            unit (hexes (grid s') (0, 4)) = NONE \<and>
            \<not> grave (hexes (grid s') (0, 4)) \<and>
            \<not> has_tree (hexes (grid s') (0, 4)) \<and>
            gold (territories s' ! 0) = gold (territories column_state ! 0) - 15) \<and>
         (\<exists>acts. get_legal_actions column_state = Some acts \<and>
               (\<forall>a \<in> set acts. \<not> (a_type a = BUY_CASTLE \<and> to_pos a = Some (0, 4))))"
    by blast
  from bc [where target = "(0, 5)", OF cp ti ow gd mem5 land5 nc5] gr nu
  have 2: "\<exists>s'. buy_castle column_state 0 (0, 5) = Some (True, s') \<and>
            \<not> grave (hexes (grid s') (0, 5))"
    by blast
  have g: "gold (territories column_state ! 0) - 15 = 5"
    by (simp add: column_defs)
  from 1 2 tree gr g show ?thesis by fastforce
qed

section \<open>Apply and undo of the search engine\<close>

lemma map_of_map_filter:
  "map_of (map (\<lambda>p. (p, f p)) (filter P xs)) q = (if q \<in> set xs \<and> P q then Some (f q) else None)"
  by (induction xs) auto

lemma reset_moves_eq:
  "distinct ps \<Longrightarrow>
   reset_moves npid ps g saved =
     (g\<lparr>hexes := \<lambda>q. if q \<in> set ps \<and> owner (hexes g q) = npid \<and> has_combat_unit (hexes g q)
                      then (hexes g q)\<lparr>can_move := True\<rparr> else hexes g q\<rparr>,
      saved @ map (\<lambda>p. (p, can_move (hexes g p)))
                (filter (\<lambda>p. owner (hexes g p) = npid \<and> has_combat_unit (hexes g p)) ps))"
proof (induction ps arbitrary: g saved)
  case Nil
  then show ?case by simp
next
  case (Cons p ps)
  then have d: "distinct ps" and np: "p \<notin> set ps" by simp_all
  show ?case
  proof (cases "owner (hexes g p) = npid \<and> has_combat_unit (hexes g p)")
    case True
    let ?g1 = "upd_hex p (\<lambda>x. x\<lparr>can_move := True\<rparr>) g"
    have same: "\<And>q. q \<in> set ps \<Longrightarrow> hexes ?g1 q = hexes g q"
      using np by (auto simp: hexes_upd_hex)
    have f: "filter (\<lambda>p. owner (hexes ?g1 p) = npid \<and> has_combat_unit (hexes ?g1 p)) ps =
             filter (\<lambda>p. owner (hexes g p) = npid \<and> has_combat_unit (hexes g p)) ps"
      by (rule filter_cong) (simp_all add: same)
    have m: "map (\<lambda>p. (p, can_move (hexes ?g1 p)))
               (filter (\<lambda>p. owner (hexes g p) = npid \<and> has_combat_unit (hexes g p)) ps) =
             map (\<lambda>p. (p, can_move (hexes g p)))
               (filter (\<lambda>p. owner (hexes g p) = npid \<and> has_combat_unit (hexes g p)) ps)"
      by (rule map_cong) (simp_all add: same)
    have h: "(\<lambda>q. if q \<in> set ps \<and> owner (hexes ?g1 q) = npid \<and> has_combat_unit (hexes ?g1 q)
                      then (hexes ?g1 q)\<lparr>can_move := True\<rparr> else hexes ?g1 q) =
             (\<lambda>q. if q \<in> set (p # ps) \<and> owner (hexes g q) = npid \<and> has_combat_unit (hexes g q)
                      then (hexes g q)\<lparr>can_move := True\<rparr> else hexes g q)"
      using True np by (auto simp: fun_eq_iff hexes_upd_hex has_combat_unit_def)
    have "reset_moves npid (p # ps) g saved =
        reset_moves npid ps ?g1 (saved @ [(p, can_move (hexes g p))])"
      using True by auto
    moreover have "filter (\<lambda>p. owner (hexes g p) = npid \<and> has_combat_unit (hexes g p)) (p # ps) =
        p # filter (\<lambda>p. owner (hexes g p) = npid \<and> has_combat_unit (hexes g p)) ps"
      using True by auto
    moreover have "?g1\<lparr>hexes := \<lambda>q. if q \<in> set (p # ps) \<and> owner (hexes g q) = npid \<and> has_combat_unit (hexes g q)
                      then (hexes g q)\<lparr>can_move := True\<rparr> else hexes g q\<rparr> =
        g\<lparr>hexes := \<lambda>q. if q \<in> set (p # ps) \<and> owner (hexes g q) = npid \<and> has_combat_unit (hexes g q)
                      then (hexes g q)\<lparr>can_move := True\<rparr> else hexes g q\<rparr>"
      by (simp add: upd_hex_def)
    ultimately show ?thesis
      by (simp only: Cons.IH [OF d] f m h) simp
  next
    case False
    have h: "(\<lambda>q. if q \<in> set ps \<and> owner (hexes g q) = npid \<and> has_combat_unit (hexes g q)
                      then (hexes g q)\<lparr>can_move := True\<rparr> else hexes g q) =
             (\<lambda>q. if q \<in> set (p # ps) \<and> owner (hexes g q) = npid \<and> has_combat_unit (hexes g q)
                      then (hexes g q)\<lparr>can_move := True\<rparr> else hexes g q)"
      using False by (auto simp: fun_eq_iff)
    have "reset_moves npid (p # ps) g saved = reset_moves npid ps g saved"
      using False by auto
    moreover have "filter (\<lambda>p. owner (hexes g p) = npid \<and> has_combat_unit (hexes g p)) (p # ps) =
        filter (\<lambda>p. owner (hexes g p) = npid \<and> has_combat_unit (hexes g p)) ps"
      using False by auto
    ultimately show ?thesis
      by (simp only: Cons.IH [OF d] h)
  qed
qed

lemma restore_moves_eq:
  "distinct (map fst sv) \<Longrightarrow> \<forall>x \<in> set sv. in_grid g (fst x) \<Longrightarrow>
   restore_moves sv g =
     Some (g\<lparr>hexes := \<lambda>q. case map_of sv q of
                             Some cm \<Rightarrow> (hexes g q)\<lparr>can_move := cm\<rparr>
                           | None \<Rightarrow> hexes g q\<rparr>)"
proof (induction sv arbitrary: g)
  case Nil
  then show ?case by simp
next
  case (Cons x sv)
  obtain p cm where x: "x = (p, cm)" by (cases x)
  let ?g1 = "upd_hex p (\<lambda>x. x\<lparr>can_move := cm\<rparr>) g"
  from Cons.prems x have d: "distinct (map fst sv)" and np: "p \<notin> fst ` set sv"
    and ig: "in_grid g p" and ig': "\<forall>x \<in> set sv. in_grid ?g1 (fst x)"
    by auto
  from np have mo: "map_of sv p = None" by (simp add: map_of_eq_None_iff)
  have h: "(\<lambda>q. case map_of sv q of
                             Some cm \<Rightarrow> (hexes ?g1 q)\<lparr>can_move := cm\<rparr>
                           | None \<Rightarrow> hexes ?g1 q) =
        (\<lambda>q. case map_of (x # sv) q of
                             Some cm \<Rightarrow> (hexes g q)\<lparr>can_move := cm\<rparr>
                           | None \<Rightarrow> hexes g q)"
    using mo x by (auto simp: fun_eq_iff hexes_upd_hex split: option.splits)
  show ?case
    using ig x by (simp add: Cons.IH [OF d ig'] h)
qed

lemma end_turn_roundtrip:
  "reset_moves npid (grid_keys g) g [] = (g1, saved) \<Longrightarrow> restore_moves saved g1 = Some g"
proof -
  assume a: "reset_moves npid (grid_keys g) g [] = (g1, saved)"
  let ?c = "\<lambda>p. owner (hexes g p) = npid \<and> has_combat_unit (hexes g p)"
  from a have g1: "g1 = g\<lparr>hexes := \<lambda>q. if q \<in> set (grid_keys g) \<and> ?c q
                      then (hexes g q)\<lparr>can_move := True\<rparr> else hexes g q\<rparr>"
    and sv: "saved = map (\<lambda>p. (p, can_move (hexes g p))) (filter ?c (grid_keys g))"
    by (simp_all add: reset_moves_eq [OF distinct_grid_keys])
  have d: "distinct (map fst saved)"
    by (simp add: sv comp_def distinct_grid_keys)
  have ig: "\<forall>x \<in> set saved. in_grid g1 (fst x)"
    by (auto simp: sv g1 in_grid_def in_grid_keys)
  have mo: "map_of saved q = (if q \<in> set (grid_keys g) \<and> ?c q then Some (can_move (hexes g q)) else None)" for q
    unfolding sv by (rule map_of_map_filter)
  show ?thesis
    unfolding restore_moves_eq [OF d ig]
    by (simp add: g1 mo fun_eq_iff cong: if_cong)
qed

lemma fast_roundtrip:
  "fast_apply g pidx n a = Some (nidx, g1, u) \<Longrightarrow> fast_undo g1 u = Some g"
proof (cases a)
  case (ACT_CAPTURE fpos tpos)
  assume "fast_apply g pidx n a = Some (nidx, g1, u)"
  with ACT_CAPTURE have ig: "in_grid g fpos" "in_grid g tpos"
    and g1: "g1 = upd_hex fpos (\<lambda>x. x\<lparr>unit := NONE, can_move := False\<rparr>)
        (upd_hex tpos (\<lambda>x. x\<lparr>owner := owner (hexes g fpos), unit := unit (hexes g fpos),
                    has_capital := False, has_castle := False, grave := False,
                    can_move := False\<rparr>) g)"
    and u: "u = UNDO_CAPTURE fpos tpos (unit (hexes g fpos)) (can_move (hexes g fpos))
        (owner (hexes g tpos)) (unit (hexes g tpos)) (has_capital (hexes g tpos))
        (has_castle (hexes g tpos)) (grave (hexes g tpos)) (can_move (hexes g tpos))"
    by (auto simp: Let_def split: if_splits)
  show ?thesis
    unfolding g1 u using ig
    by (auto simp: Let_def fun_eq_iff hexes_upd_hex intro!: HexGrid_eqI)
next
  case (ACT_MOVE fpos tpos)
  assume "fast_apply g pidx n a = Some (nidx, g1, u)"
  with ACT_MOVE have ig: "in_grid g fpos" "in_grid g tpos"
    and g1: "g1 = upd_hex fpos (\<lambda>x. x\<lparr>unit := NONE, can_move := False\<rparr>)
        (upd_hex tpos (\<lambda>x. x\<lparr>unit := unit (hexes g fpos), can_move := True\<rparr>) g)"
    and u: "u = UNDO_MOVE fpos tpos (unit (hexes g fpos)) (can_move (hexes g fpos))
        (unit (hexes g tpos)) (can_move (hexes g tpos))"
    by (auto simp: Let_def split: if_splits)
  show ?thesis
    unfolding g1 u using ig
    by (auto simp: Let_def fun_eq_iff hexes_upd_hex intro!: HexGrid_eqI)
next
  case ACT_END_TURN
  assume "fast_apply g pidx n a = Some (nidx, g1, u)"
  with ACT_END_TURN show ?thesis
    by (auto simp: Let_def end_turn_roundtrip split: if_splits prod.splits)
qed

lemma movers_in_grid: "h \<in> set (movers g pid) \<Longrightarrow> in_grid g h"
  by (auto simp: movers_def in_grid_keys)

lemma search_action_cases:
  "a \<in> set (get_search_actions g pid) \<Longrightarrow>
   (\<exists>f t. a = ACT_CAPTURE f t \<and> in_grid g f \<and> in_grid g t) \<or>
   (\<exists>f t. a = ACT_MOVE f t \<and> in_grid g f \<and> in_grid g t) \<or> a = ACT_END_TURN"
  by (auto simp: get_search_actions_def unit_captures_def unit_moves_def
      dest: movers_in_grid get_neighbors_in_grid)

lemma fast_apply_legal:
  "a \<in> set (get_search_actions g pid) \<Longrightarrow> n \<noteq> 0 \<Longrightarrow>
   \<exists>nidx g1 u. fast_apply g pidx n a = Some (nidx, g1, u)"
  by (drule search_action_cases) (auto simp: Let_def split: prod.splits)

text \<open>Claim C1. For every action that \<open>get_search_actions\<close> generates on a grid (with at
  least one player), \<open>fast_apply\<close> succeeds, and \<open>fast_undo\<close> with the returned undo record
  succeeds and gives back the grid before the apply: the same width and height and, on
  every cell, the same \<open>is_land\<close>, \<open>owner\<close>, \<open>unit\<close>, \<open>has_capital\<close>, \<open>has_castle\<close>, \<open>grave\<close>
  and \<open>can_move\<close>.\<close>

theorem apply_undo_exact:
  assumes "a \<in> set (get_search_actions g player_id)" and "num_players \<noteq> 0"
  shows "\<exists>nidx g1 u. fast_apply g player_idx num_players a = Some (nidx, g1, u) \<and>
           fast_undo g1 u = Some g"
proof -
  from fast_apply_legal [OF assms] obtain nidx g1 u
    where ap: "fast_apply g player_idx num_players a = Some (nidx, g1, u)" by blast
  from fast_roundtrip [OF ap] ap show ?thesis by blast
qed

theorem apply_undo_exact_witness:
  "ACT_CAPTURE (0, 0) (0, 1) \<in> set (get_search_actions duel_grid 0) \<and>
   (\<exists>nidx g1 u. fast_apply duel_grid 0 2 (ACT_CAPTURE (0, 0) (0, 1)) = Some (nidx, g1, u) \<and>
      owner (hexes g1 (0, 1)) = 0 \<and> fast_undo g1 u = Some duel_grid) \<and>
   (\<exists>nidx g1 u. fast_apply duel_grid 0 2 ACT_END_TURN = Some (nidx, g1, u) \<and>
      fast_undo g1 u = Some duel_grid)"
proof -
  have m: "ACT_CAPTURE (0, 0) (0, 1) \<in> set (get_search_actions duel_grid 0)"
    by code_simp
  have e: "ACT_END_TURN \<in> set (get_search_actions duel_grid 0)"
    by (simp add: get_search_actions_def)
  from apply_undo_exact [OF m, of 2 0] obtain nidx g1 u
    where a: "fast_apply duel_grid 0 2 (ACT_CAPTURE (0, 0) (0, 1)) = Some (nidx, g1, u)"
      and u: "fast_undo g1 u = Some duel_grid" by auto
  from a have "owner (hexes g1 (0, 1)) = 0"
    by (auto simp: Let_def hexes_upd_hex duel_grid_def land_hex_def blank_hex_def
        split: if_splits)
  with a u apply_undo_exact [OF e, of 2 0] m show ?thesis by auto
qed

section \<open>Tree growth\<close>

lemma get_neighbors_upd_hex [simp]: "get_neighbors (upd_hex p f g) q = get_neighbors g q"
  by (simp add: get_neighbors_def Let_def cong: filter_cong)

lemma is_land_filter_upd_hex:
  "is_land (f (hexes g p)) = is_land (hexes g p) \<Longrightarrow>
   filter (\<lambda>n. is_land (hexes (upd_hex p f g) n)) xs = filter (\<lambda>n. is_land (hexes g n)) xs"
  by (rule filter_cong) (auto simp: hexes_upd_hex)

lemma is_coastal_upd_hex:
  "is_land (f (hexes g p)) = is_land (hexes g p) \<Longrightarrow> is_coastal (upd_hex p f g) q = is_coastal g q"
  by (simp add: is_coastal_def is_land_filter_upd_hex)

lemma all_land_upd_hex:
  "is_land (f (hexes g p)) = is_land (hexes g p) \<Longrightarrow> all_land (upd_hex p f g) = all_land g"
  by (simp add: all_land_def is_land_filter_upd_hex)

lemma distinct_get_neighbors: "distinct (get_neighbors g p)"
  by (auto simp: get_neighbors_def Let_def NEIGHBOR_DIRS_ODD_def NEIGHBOR_DIRS_EVEN_def
      intro!: distinct_filter)

text \<open>Auxiliary notions for the proofs: the tree a grave turns into, and the decision of
  the spreading loop for one cell.\<close>

definition grave_tree :: "HexGrid \<Rightarrow> pos \<Rightarrow> Hex" where
  "grave_tree g q =
     (hexes g q)\<lparr>unit := (if is_coastal g q then TREE_PALM else TREE_PINE), grave := False\<rparr>"

lemma graves_to_trees_props:
  "width (graves_to_trees pid ps g) = width g \<and> height (graves_to_trees pid ps g) = height g \<and>
   (\<forall>q. hexes (graves_to_trees pid ps g) q =
     (if q \<in> set ps \<and> owner (hexes g q) = pid \<and> grave (hexes g q)
      then grave_tree g q else hexes g q))"
proof (induction ps arbitrary: g)
  case Nil
  then show ?case by simp
next
  case (Cons h ps)
  show ?case
  proof (cases "owner (hexes g h) \<noteq> pid \<or> \<not> grave (hexes g h)")
    case True
    then show ?thesis using Cons.IH [of g] by auto
  next
    case False
    define tt where "tt = (if is_coastal g h then TREE_PALM else TREE_PINE)"
    define g1 where "g1 = upd_hex h (\<lambda>x. x\<lparr>unit := tt, grave := False\<rparr>) g"
    have co: "\<And>q. is_coastal g1 q = is_coastal g q"
      unfolding g1_def by (rule is_coastal_upd_hex) simp
    have hx: "\<And>q. hexes g1 q = (if q = h then (hexes g h)\<lparr>unit := tt, grave := False\<rparr>
                                 else hexes g q)"
      by (simp add: g1_def hexes_upd_hex)
    have gt: "\<And>q. q \<noteq> h \<Longrightarrow> grave_tree g1 q = grave_tree g q"
      by (simp add: grave_tree_def co hx)
    have gth: "grave_tree g h = (hexes g h)\<lparr>unit := tt, grave := False\<rparr>"
      by (simp add: grave_tree_def tt_def)
    from False have r: "graves_to_trees pid (h # ps) g = graves_to_trees pid ps g1"
      by (simp add: g1_def tt_def)
    from False have gh: "owner (hexes g h) = pid" "grave (hexes g h)" by simp_all
    note IH = Cons.IH [of g1]
    from IH have wh: "width (graves_to_trees pid ps g1) = width g"
      "height (graves_to_trees pid ps g1) = height g"
      by (simp_all add: g1_def)
    from IH have hq: "\<And>q. hexes (graves_to_trees pid ps g1) q =
       (if q \<in> set ps \<and> owner (hexes g1 q) = pid \<and> grave (hexes g1 q)
        then grave_tree g1 q else hexes g1 q)" by blast
    have "hexes (graves_to_trees pid ps g1) q =
       (if q \<in> set (h # ps) \<and> owner (hexes g q) = pid \<and> grave (hexes g q)
        then grave_tree g q else hexes g q)" for q
    proof (cases "q = h")
      case True
      then show ?thesis
        using gh by (simp add: hq hx gth)
    next
      case False
      then show ?thesis
        by (simp add: hq hx gt)
    qed
    then show ?thesis
      unfolding r using wh by simp
  qed
qed

lemma graves_to_trees_width: "width (graves_to_trees pid ps g) = width g"
  and graves_to_trees_height: "height (graves_to_trees pid ps g) = height g"
  and graves_to_trees_hexes: "hexes (graves_to_trees pid ps g) q =
     (if q \<in> set ps \<and> owner (hexes g q) = pid \<and> grave (hexes g q)
      then grave_tree g q else hexes g q)"
  using graves_to_trees_props [of pid ps g] by blast+

definition spread_choice :: "HexGrid \<Rightarrow> int \<Rightarrow> pos set \<Rightarrow> pos set \<Rightarrow> pos \<Rightarrow> UnitType option" where
  "spread_choice g pid palms pines h =
     (if owner (hexes g h) \<noteq> pid then None
      else if unit (hexes g h) \<noteq> NONE \<or> has_capital (hexes g h)
              \<or> has_castle (hexes g h) \<or> grave (hexes g h) then None
      else if is_coastal g h then
        (if list_ex (\<lambda>n. n \<in> palms) (get_neighbors g h) then Some TREE_PALM else None)
      else
        (if int (length (filter (\<lambda>n. n \<in> pines) (get_neighbors g h))) \<ge> 2
         then Some TREE_PINE else None))"

lemma spread_trees_choice:
  "spread_trees g pid palms pines ps =
     List.map_filter (\<lambda>h. map_option (Pair h) (spread_choice g pid palms pines h)) ps"
  by (induction ps) (simp_all add: map_filter_simps spread_choice_def Let_def)

lemma place_trees_props:
  "width (place_trees (List.map_filter (\<lambda>h. map_option (Pair h) (c h)) ps) g) = width g \<and>
   height (place_trees (List.map_filter (\<lambda>h. map_option (Pair h) (c h)) ps) g) = height g \<and>
   (\<forall>q. hexes (place_trees (List.map_filter (\<lambda>h. map_option (Pair h) (c h)) ps) g) q =
      (if q \<in> set ps then (case c q of Some tt \<Rightarrow> (hexes g q)\<lparr>unit := tt\<rparr> | None \<Rightarrow> hexes g q)
       else hexes g q))"
proof (induction ps arbitrary: g)
  case Nil
  then show ?case by (simp add: map_filter_simps)
next
  case (Cons h ps)
  show ?case
  proof (cases "c h")
    case None
    then show ?thesis using Cons.IH [of g] by (auto simp: map_filter_simps)
  next
    case (Some tt)
    define g1 where "g1 = upd_hex h (\<lambda>x. x\<lparr>unit := tt\<rparr>) g"
    have r: "place_trees (List.map_filter (\<lambda>h. map_option (Pair h) (c h)) (h # ps)) g =
          place_trees (List.map_filter (\<lambda>h. map_option (Pair h) (c h)) ps) g1"
      using Some by (simp add: map_filter_simps g1_def)
    note IH = Cons.IH [of g1]
    have hx: "\<And>q. hexes g1 q = (if q = h then (hexes g h)\<lparr>unit := tt\<rparr> else hexes g q)"
      by (simp add: g1_def hexes_upd_hex)
    from IH have wh: "width (place_trees (List.map_filter (\<lambda>h. map_option (Pair h) (c h)) ps) g1) = width g"
      "height (place_trees (List.map_filter (\<lambda>h. map_option (Pair h) (c h)) ps) g1) = height g"
      by (simp_all add: g1_def)
    from IH have hq: "\<And>q. hexes (place_trees (List.map_filter (\<lambda>h. map_option (Pair h) (c h)) ps) g1) q =
      (if q \<in> set ps then (case c q of Some tt \<Rightarrow> (hexes g1 q)\<lparr>unit := tt\<rparr> | None \<Rightarrow> hexes g1 q)
       else hexes g1 q)" by blast
    show ?thesis
      unfolding r using wh Some by (auto simp: hq hx split: option.splits)
  qed
qed

lemma place_trees_width:
    "width (place_trees (List.map_filter (\<lambda>h. map_option (Pair h) (c h)) ps) g) = width g"
  and place_trees_height:
    "height (place_trees (List.map_filter (\<lambda>h. map_option (Pair h) (c h)) ps) g) = height g"
  and place_trees_hexes:
    "hexes (place_trees (List.map_filter (\<lambda>h. map_option (Pair h) (c h)) ps) g) q =
      (if q \<in> set ps then (case c q of Some tt \<Rightarrow> (hexes g q)\<lparr>unit := tt\<rparr> | None \<Rightarrow> hexes g q)
       else hexes g q)"
  using place_trees_props [of c ps g] by blast+

lemma all_land_set: "q \<in> set (all_land g) \<longleftrightarrow> in_grid g q \<and> is_land (hexes g q)"
  by (auto simp: all_land_def in_grid_keys)

lemma all_land_cong:
  "width g1 = width g \<Longrightarrow> height g1 = height g \<Longrightarrow>
   (\<And>q. is_land (hexes g1 q) = is_land (hexes g q)) \<Longrightarrow> all_land g1 = all_land g"
  by (simp add: all_land_def grid_keys_def)

lemma is_coastal_cong:
  "(\<And>q. is_land (hexes g1 q) = is_land (hexes g q)) \<Longrightarrow> width g1 = width g \<Longrightarrow>
   height g1 = height g \<Longrightarrow> is_coastal g1 p = is_coastal g p"
  by (simp add: is_coastal_def get_neighbors_def in_grid_def Let_def cong: filter_cong)

lemma get_neighbors_cong:
  "width g1 = width g \<Longrightarrow> height g1 = height g \<Longrightarrow> get_neighbors g1 p = get_neighbors g p"
  by (simp add: get_neighbors_def in_grid_def Let_def cong: filter_cong)

text \<open>Claim C9. Whatever order the loops of the pass visit the land cells in, and in
  particular in the order of \<open>_grow_trees\<close> itself, the grid after the pass is the grid
  before it with every cell replaced by \<open>spec_grown_cell\<close>, which reads the grid before
  the pass only: graves of the acting player become palms (coastal) or pines, truly empty
  cells of the acting player become a palm next to a snapshot palm (coastal) or a pine next
  to two snapshot pines (not coastal), and a grave converted in the pass is no source.\<close>

theorem tree_growth_single_pass:
  assumes "set order1 = set (all_land g)" and "set order2 = set (all_land g)"
    and "set order3 = set (all_land g)"
  shows "grow_trees_in order1 order2 order3 g player_id = g\<lparr>hexes := spec_grown_cell g player_id\<rparr>
         \<and> grow_trees g player_id = g\<lparr>hexes := spec_grown_cell g player_id\<rparr>"
proof -
  have main: "grow_trees_in o1 o2 o3 g player_id = g\<lparr>hexes := spec_grown_cell g player_id\<rparr>"
    if o1: "set o1 = set (all_land g)" and o2: "set o2 = set (all_land g)"
      and o3: "set o3 = set (all_land g)" for o1 o2 o3
  proof -
    define palms where "palms = set (filter (\<lambda>h. unit (hexes g h) = TREE_PALM) o1)"
    define pines where "pines = set (filter (\<lambda>h. unit (hexes g h) = TREE_PINE) o1)"
    define g1 where "g1 = graves_to_trees player_id o2 g"
    define c where "c = spread_choice g1 player_id palms pines"
    have palms: "\<And>n. n \<in> palms \<longleftrightarrow> snapshot_tree g TREE_PALM n"
      and pines: "\<And>n. n \<in> pines \<longleftrightarrow> snapshot_tree g TREE_PINE n"
      using o1 by (auto simp: palms_def pines_def snapshot_tree_def all_land_set)
    have wh1: "width g1 = width g" "height g1 = height g"
      and h1: "\<And>q. hexes g1 q = (if q \<in> set o2 \<and> owner (hexes g q) = player_id \<and> grave (hexes g q)
          then grave_tree g q else hexes g q)"
      by (simp_all add: g1_def graves_to_trees_width graves_to_trees_height
          graves_to_trees_hexes)
    have land1: "\<And>q. is_land (hexes g1 q) = is_land (hexes g q)"
      by (simp add: h1 grave_tree_def)
    have co1: "\<And>q. is_coastal g1 q = is_coastal g q"
      by (rule is_coastal_cong) (simp_all add: land1 wh1)
    have nb1: "\<And>q. get_neighbors g1 q = get_neighbors g q"
      by (rule get_neighbors_cong) (simp_all add: wh1)
    have gt: "grow_trees_in o1 o2 o3 g player_id =
        place_trees (List.map_filter (\<lambda>h. map_option (Pair h) (c h)) o3) g1"
      by (simp add: grow_trees_in_def Let_def spread_trees_choice c_def g1_def palms_def pines_def)
    have cnt: "\<And>q. 2 \<le> length (filter (\<lambda>n. n \<in> pines) (get_neighbors g q)) \<longleftrightarrow>
        card {n \<in> set (get_neighbors g q). snapshot_tree g TREE_PINE n} \<ge> 2"
    proof -
      fix q
      have "card {n \<in> set (get_neighbors g q). snapshot_tree g TREE_PINE n} =
            length (filter (\<lambda>n. n \<in> pines) (get_neighbors g q))"
        using distinct_card [of "filter (\<lambda>n. n \<in> pines) (get_neighbors g q)"]
        by (simp add: distinct_get_neighbors pines)
      then show "2 \<le> length (filter (\<lambda>n. n \<in> pines) (get_neighbors g q)) \<longleftrightarrow>
        card {n \<in> set (get_neighbors g q). snapshot_tree g TREE_PINE n} \<ge> 2" by simp
    qed
    have ex: "\<And>q. list_ex (\<lambda>n. n \<in> palms) (get_neighbors g q) \<longleftrightarrow>
        (\<exists>n \<in> set (get_neighbors g q). snapshot_tree g TREE_PALM n)"
      by (simp add: list_ex_iff palms)
    have cell: "hexes (place_trees (List.map_filter (\<lambda>h. map_option (Pair h) (c h)) o3) g1) q =
        spec_grown_cell g player_id q" for q
    proof -
      have "hexes (place_trees (List.map_filter (\<lambda>h. map_option (Pair h) (c h)) o3) g1) q =
          (if q \<in> set o3 then (case c q of Some tt \<Rightarrow> (hexes g1 q)\<lparr>unit := tt\<rparr> | None \<Rightarrow> hexes g1 q)
           else hexes g1 q)"
        by (rule place_trees_hexes)
      also have "\<dots> = spec_grown_cell g player_id q"
        by (auto simp: o3 o2 all_land_set h1 c_def spread_choice_def co1 nb1 cnt ex
            spec_grown_cell_def grave_tree_def Let_def)
      finally show ?thesis .
    qed
    show ?thesis
      unfolding gt
      by (rule HexGrid_eqI)
        (simp_all add: place_trees_width place_trees_height wh1 cell fun_eq_iff)
  qed
  have al: "all_land (graves_to_trees player_id (all_land g) g) = all_land g"
    by (rule all_land_cong)
      (simp_all add: graves_to_trees_width graves_to_trees_height graves_to_trees_hexes
        grave_tree_def)
  have "grow_trees g player_id = grow_trees_in (all_land g) (all_land g) (all_land g) g player_id"
    by (simp add: grow_trees_def grow_trees_in_def Let_def al)
  with main [OF assms] main [of "all_land g" "all_land g" "all_land g"] show ?thesis by simp
qed

theorem tree_growth_single_pass_witness:
  "set (rev (all_land tree_grid)) = set (all_land tree_grid) \<and>
   grow_trees_in (rev (all_land tree_grid)) (rev (all_land tree_grid)) (rev (all_land tree_grid))
     tree_grid 0 = grow_trees tree_grid 0 \<and>
   hexes (grow_trees tree_grid 0) (0, 0) = spec_grown_cell tree_grid 0 (0, 0) \<and>
   unit (hexes (grow_trees tree_grid 0) (0, 0)) = TREE_PALM \<and>
   unit (hexes (grow_trees tree_grid 0) (0, 1)) = NONE \<and>
   unit (hexes (grow_trees tree_grid 0) (1, 1)) = TREE_PINE \<and>
   unit (hexes (grow_trees tree_grid 0) (1, 2)) = TREE_PALM"
proof -
  have s: "set (rev (all_land tree_grid)) = set (all_land tree_grid)" by simp
  from tree_growth_single_pass [OF s s s, of 0]
  have 1: "grow_trees_in (rev (all_land tree_grid)) (rev (all_land tree_grid))
      (rev (all_land tree_grid)) tree_grid 0 = grow_trees tree_grid 0"
    and 2: "hexes (grow_trees tree_grid 0) (0, 0) = spec_grown_cell tree_grid 0 (0, 0)"
    by simp_all
  have 3: "unit (hexes (grow_trees tree_grid 0) (0, 0)) = TREE_PALM" by code_simp
  have 4: "unit (hexes (grow_trees tree_grid 0) (0, 1)) = NONE" by code_simp
  have 5: "unit (hexes (grow_trees tree_grid 0) (1, 1)) = TREE_PINE" by code_simp
  have 6: "unit (hexes (grow_trees tree_grid 0) (1, 2)) = TREE_PALM" by code_simp
  from s 1 2 3 4 5 6 show ?thesis by blast
qed

section \<open>Flood fill computes connected regions\<close>

text \<open>Auxiliary notions for the proofs: the neighbours before the bounds filter, a land
  cell of a given owner, one step of the flood fill, the cells the fill may reach, closure
  of a set of cells under steps, and a well-formed freshly found territory.\<close>

definition raw_neighbors :: "pos \<Rightarrow> pos list" where
  "raw_neighbors p =
     map (\<lambda>(dc, dr). (fst p + dc, snd p + dr))
       (if fst p mod 2 = 1 then NEIGHBOR_DIRS_ODD else NEIGHBOR_DIRS_EVEN)"

lemma get_neighbors_raw: "get_neighbors g p = filter (in_grid g) (raw_neighbors p)"
  by (simp add: get_neighbors_def raw_neighbors_def Let_def)

lemma raw_neighbors_odd:
  "ac mod 2 = 1 \<Longrightarrow> raw_neighbors (ac, ar) =
     [(ac + 1, ar + 1), (ac + 1, ar), (ac, ar - 1), (ac - 1, ar), (ac - 1, ar + 1), (ac, ar + 1)]"
  by (simp add: raw_neighbors_def NEIGHBOR_DIRS_ODD_def)

lemma raw_neighbors_even:
  "ac mod 2 \<noteq> 1 \<Longrightarrow> raw_neighbors (ac, ar) =
     [(ac + 1, ar), (ac + 1, ar - 1), (ac, ar - 1), (ac - 1, ar - 1), (ac - 1, ar), (ac, ar + 1)]"
  by (simp add: raw_neighbors_def NEIGHBOR_DIRS_EVEN_def)

lemma raw_neighbors_sym:
  assumes "b \<in> set (raw_neighbors a)"
  shows "a \<in> set (raw_neighbors b)"
proof -
  obtain ac ar where a: "a = (ac, ar)" by (cases a)
  have m: "(ac + 1) mod 2 = 1 \<longleftrightarrow> ac mod 2 \<noteq> 1" "(ac - 1) mod 2 = 1 \<longleftrightarrow> ac mod 2 \<noteq> 1"
    by presburger+
  show ?thesis
  proof (cases "ac mod 2 = 1")
    case True
    then have e: "(ac + 1) mod 2 \<noteq> 1" "(ac - 1) mod 2 \<noteq> 1" using m by simp_all
    from assms have "b = (ac + 1, ar + 1) \<or> b = (ac + 1, ar) \<or> b = (ac, ar - 1) \<or>
        b = (ac - 1, ar) \<or> b = (ac - 1, ar + 1) \<or> b = (ac, ar + 1)"
      by (simp add: a raw_neighbors_odd [OF True])
    then show ?thesis
      unfolding a
      by (elim disjE)
        (simp_all add: raw_neighbors_odd [OF True] raw_neighbors_even [OF e(1)]
          raw_neighbors_even [OF e(2)])
  next
    case False
    then have e: "(ac + 1) mod 2 = 1" "(ac - 1) mod 2 = 1" using m by simp_all
    from assms have "b = (ac + 1, ar) \<or> b = (ac + 1, ar - 1) \<or> b = (ac, ar - 1) \<or>
        b = (ac - 1, ar - 1) \<or> b = (ac - 1, ar) \<or> b = (ac, ar + 1)"
      by (simp add: a raw_neighbors_even [OF False])
    then show ?thesis
      unfolding a
      by (elim disjE)
        (simp_all add: raw_neighbors_even [OF False] raw_neighbors_odd [OF e(1)]
          raw_neighbors_odd [OF e(2)])
  qed
qed

lemma get_neighbors_sym:
  assumes "in_grid g a" and "b \<in> set (get_neighbors g a)"
  shows "a \<in> set (get_neighbors g b)"
  using assms raw_neighbors_sym [of b a] by (simp add: get_neighbors_raw)

definition cell_ok :: "HexGrid \<Rightarrow> int \<Rightarrow> pos \<Rightarrow> bool" where
  "cell_ok g ow p \<longleftrightarrow> is_land (hexes g p) \<and> owner (hexes g p) = ow"

definition fstep :: "HexGrid \<Rightarrow> int \<Rightarrow> (pos \<times> pos) set" where
  "fstep g ow = {(a, b). b \<in> set (get_neighbors g a) \<and> cell_ok g ow b}"

lemma visit_neighbors_props:
  "visit_neighbors g ow ns (q, v) = (q', v') \<Longrightarrow>
   \<exists>new. q' = q @ new \<and> v' = v \<union> set new \<and> distinct new \<and> set new \<inter> v = {} \<and>
     set new = {n \<in> set ns. n \<notin> v \<and> cell_ok g ow n}"
proof (induction ns arbitrary: q v)
  case Nil
  then show ?case by simp
next
  case (Cons n ns)
  show ?case
  proof (cases "n \<notin> v \<and> cell_ok g ow n")
    case True
    with Cons.prems have "visit_neighbors g ow ns (q @ [n], insert n v) = (q', v')"
      by (simp add: cell_ok_def)
    from Cons.IH [OF this] obtain new where new: "q' = (q @ [n]) @ new" "v' = insert n v \<union> set new"
      "distinct new" "set new \<inter> insert n v = {}"
      "set new = {m \<in> set ns. m \<notin> insert n v \<and> cell_ok g ow m}" by blast
    from new(4) have nn: "n \<notin> set new" and dv: "set new \<inter> v = {}" by blast+
    have 1: "q' = q @ (n # new)" using new(1) by simp
    have 2: "v' = v \<union> set (n # new)" using new(2) by simp
    have 3: "distinct (n # new)" using new(3) nn by simp
    have 4: "set (n # new) \<inter> v = {}" using dv True by simp
    have 5: "set (n # new) = {m \<in> set (n # ns). m \<notin> v \<and> cell_ok g ow m}"
    proof (intro set_eqI iffI)
      fix x assume "x \<in> set (n # new)"
      then show "x \<in> {m \<in> set (n # ns). m \<notin> v \<and> cell_ok g ow m}"
        using True new(5) by (cases "x = n") simp_all
    next
      fix x assume x: "x \<in> {m \<in> set (n # ns). m \<notin> v \<and> cell_ok g ow m}"
      show "x \<in> set (n # new)"
      proof (cases "x = n")
        case True
        then show ?thesis by simp
      next
        case False
        with x have "x \<in> {m \<in> set ns. m \<notin> insert n v \<and> cell_ok g ow m}" by simp
        then show ?thesis unfolding new(5) [symmetric] by simp
      qed
    qed
    from 1 2 3 4 5 show ?thesis by blast
  next
    case False
    with Cons.prems have "visit_neighbors g ow ns (q, v) = (q', v')"
      by (simp add: cell_ok_def split: if_splits)
    from Cons.IH [OF this] obtain new where new: "q' = q @ new" "v' = v \<union> set new"
      "distinct new" "set new \<inter> v = {}"
      "set new = {m \<in> set ns. m \<notin> v \<and> cell_ok g ow m}" by blast
    have 5: "set new = {m \<in> set (n # ns). m \<notin> v \<and> cell_ok g ow m}"
      unfolding new(5) using False by auto
    from new(1-4) 5 show ?thesis by blast
  qed
qed

definition ff_member :: "HexGrid \<Rightarrow> int \<Rightarrow> pos \<Rightarrow> pos \<Rightarrow> bool" where
  "ff_member g ow start p \<longleftrightarrow>
     cell_ok g ow p \<and> in_grid g p \<and> (start, p) \<in> (fstep g ow)\<^sup>*"

definition ff_closed :: "HexGrid \<Rightarrow> int \<Rightarrow> pos set \<Rightarrow> pos set \<Rightarrow> bool" where
  "ff_closed g ow A B \<longleftrightarrow>
     (\<forall>p \<in> A. \<forall>n \<in> set (get_neighbors g p). cell_ok g ow n \<longrightarrow> n \<in> B)"

lemma ff_member_step:
  "ff_member g ow start c \<Longrightarrow> p \<in> set (get_neighbors g c) \<Longrightarrow> cell_ok g ow p \<Longrightarrow>
   ff_member g ow start p"
proof -
  assume m: "ff_member g ow start c" and n: "p \<in> set (get_neighbors g c)" and ok: "cell_ok g ow p"
  from n ok have "(c, p) \<in> fstep g ow" by (simp add: fstep_def)
  moreover from m have "(start, c) \<in> (fstep g ow)\<^sup>*" by (simp add: ff_member_def)
  ultimately have "(start, p) \<in> (fstep g ow)\<^sup>*" by (rule rtrancl_into_rtrancl [rotated])
  with ok get_neighbors_in_grid [OF n] show ?thesis by (simp add: ff_member_def)
qed

lemma flood_loop_inv:
  assumes "distinct (result @ queue)" and "set result \<union> set queue = visited"
    and "ff_closed g ow (set result) visited"
    and "\<forall>p \<in> visited. ff_member g ow start p"
  shows "distinct (flood_loop g ow queue visited result) \<and>
         visited \<subseteq> set (flood_loop g ow queue visited result) \<and>
         ff_closed g ow (set (flood_loop g ow queue visited result))
            (set (flood_loop g ow queue visited result)) \<and>
         (\<forall>p \<in> set (flood_loop g ow queue visited result). ff_member g ow start p)"
  using assms
proof (induction g ow queue visited result rule: flood_loop.induct)
  case (1 g ow visited result)
  then have "set result = visited" by simp
  with 1 show ?case by simp
next
  case (2 g ow current queue visited result)
  obtain q' v' where vn: "visit_neighbors g ow (get_neighbors g current) (queue, visited) = (q', v')"
    by (cases "visit_neighbors g ow (get_neighbors g current) (queue, visited)")
  from visit_neighbors_props [OF vn] obtain new where new: "q' = queue @ new"
    "v' = visited \<union> set new" "distinct new" "set new \<inter> visited = {}"
    "set new = {n \<in> set (get_neighbors g current). n \<notin> visited \<and> cell_ok g ow n}" by blast
  have r: "flood_loop g ow (current # queue) visited result =
      flood_loop g ow q' v' (result @ [current])"
    by (simp add: vn)
  note p1 = "2.prems"(1) and p2 = "2.prems"(2) and p3 = "2.prems"(3) and p4 = "2.prems"(4)
  from p2 have cv: "current \<in> visited" by auto
  with p4 have cur: "ff_member g ow start current" by blast
  have vis: "visited = set result \<union> insert current (set queue)" using p2 by simp
  have d: "distinct ((result @ [current]) @ q')"
    using p1 new(3,4) unfolding new(1) vis by auto
  have s: "set (result @ [current]) \<union> set q' = v'"
    unfolding new(1,2) vis by auto
  have c: "ff_closed g ow (set (result @ [current])) v'"
    unfolding ff_closed_def
  proof (intro ballI impI)
    fix p n assume pn: "p \<in> set (result @ [current])" "n \<in> set (get_neighbors g p)" "cell_ok g ow n"
    show "n \<in> v'"
    proof (cases "p = current")
      case True
      with pn new(5) have "n \<in> visited \<or> n \<in> set new" by blast
      then show ?thesis unfolding new(2) by blast
    next
      case False
      with pn have "p \<in> set result" by simp
      with p3 pn have "n \<in> visited" unfolding ff_closed_def by blast
      then show ?thesis unfolding new(2) by blast
    qed
  qed
  have reach: "\<forall>p \<in> v'. ff_member g ow start p"
  proof
    fix p assume "p \<in> v'"
    then consider "p \<in> visited" | "p \<in> set new" unfolding new(2) by blast
    then show "ff_member g ow start p"
    proof cases
      case 1
      then show ?thesis using p4 by blast
    next
      case 2
      then have pn: "p \<in> set (get_neighbors g current)" "cell_ok g ow p" unfolding new(5) by auto
      from ff_member_step [OF cur pn] show ?thesis .
    qed
  qed
  have sub: "visited \<subseteq> v'" unfolding new(2) by blast
  from "2.IH" [OF vn [symmetric] d s c reach] sub show ?case
    unfolding r by blast
qed

lemma flood_fill_props:
  assumes "cell_ok g ow start" and "in_grid g start"
  shows "distinct (flood_fill g start ow)" and "start \<in> set (flood_fill g start ow)"
    and "ff_closed g ow (set (flood_fill g start ow)) (set (flood_fill g start ow))"
    and "\<forall>p \<in> set (flood_fill g start ow). ff_member g ow start p"
proof -
  have ff: "flood_fill g start ow = flood_loop g ow [start] {start} []"
    using assms by (simp add: flood_fill_def cell_ok_def)
  have m: "ff_member g ow start start" using assms by (simp add: ff_member_def)
  have inv: "distinct (flood_loop g ow [start] {start} []) \<and>
         {start} \<subseteq> set (flood_loop g ow [start] {start} []) \<and>
         ff_closed g ow (set (flood_loop g ow [start] {start} []))
            (set (flood_loop g ow [start] {start} [])) \<and>
         (\<forall>p \<in> set (flood_loop g ow [start] {start} []). ff_member g ow start p)"
    by (rule flood_loop_inv) (simp_all add: ff_closed_def m)
  show "distinct (flood_fill g start ow)" "start \<in> set (flood_fill g start ow)"
    "ff_closed g ow (set (flood_fill g start ow)) (set (flood_fill g start ow))"
    "\<forall>p \<in> set (flood_fill g start ow). ff_member g ow start p"
    using inv unfolding ff by simp_all
qed

lemma closed_reach:
  assumes "ff_closed g ow A A" and "(x, y) \<in> (fstep g ow)\<^sup>*" and "x \<in> A"
  shows "y \<in> A"
  using assms(2,3)
proof (induction rule: rtrancl_induct)
  case base
  then show ?case .
next
  case (step y z)
  from step.hyps(2) have "z \<in> set (get_neighbors g y)" "cell_ok g ow z"
    by (simp_all add: fstep_def)
  with assms(1) step.IH [OF step.prems] show ?case
    unfolding ff_closed_def by blast
qed

lemma reach_back:
  assumes "cell_ok g ow h" and "in_grid g h" and "(h, x) \<in> (fstep g ow)\<^sup>*"
  shows "(x, h) \<in> (fstep g ow)\<^sup>* \<and> cell_ok g ow x \<and> in_grid g x"
  using assms(3)
proof (induction rule: rtrancl_induct)
  case base
  with assms show ?case by simp
next
  case (step y z)
  from step.hyps(2) have zn: "z \<in> set (get_neighbors g y)" and zok: "cell_ok g ow z"
    by (simp_all add: fstep_def)
  from step.IH have yh: "(y, h) \<in> (fstep g ow)\<^sup>*" and yok: "cell_ok g ow y"
    and yin: "in_grid g y" by simp_all
  from get_neighbors_sym [OF yin zn] yok have "(z, y) \<in> fstep g ow"
    by (simp add: fstep_def)
  then have "(z, h) \<in> (fstep g ow)\<^sup>*" using yh by (rule converse_rtrancl_into_rtrancl)
  with zok get_neighbors_in_grid [OF zn] show ?case by simp
qed

definition terr_ok :: "HexGrid \<Rightarrow> Territory \<Rightarrow> bool" where
  "terr_ok g t \<longleftrightarrow>
     t_hexes t \<noteq> [] \<and> capital_ref t = None \<and>
     (\<forall>p \<in> set (t_hexes t). cell_ok g (t_owner t) p \<and> in_grid g p) \<and>
     ff_closed g (t_owner t) (set (t_hexes t)) (set (t_hexes t))"

lemma flood_fill_fresh:
  assumes h: "cell_ok g ow h" "in_grid g h"
    and t0: "terr_ok g t0" and hn: "h \<notin> set (t_hexes t0)"
  shows "set (flood_fill g h ow) \<inter> set (t_hexes t0) = {}"
proof (rule ccontr)
  assume "set (flood_fill g h ow) \<inter> set (t_hexes t0) \<noteq> {}"
  then obtain x where x: "x \<in> set (flood_fill g h ow)" "x \<in> set (t_hexes t0)" by blast
  from flood_fill_props(4) [OF h] x(1) have m: "ff_member g ow h x" by blast
  then have xok: "cell_ok g ow x" and hx: "(h, x) \<in> (fstep g ow)\<^sup>*"
    by (simp_all add: ff_member_def)
  from t0 x(2) have "cell_ok g (t_owner t0) x" by (simp add: terr_ok_def)
  with xok have ow: "t_owner t0 = ow" by (simp add: cell_ok_def)
  from reach_back [OF h hx] have xh: "(x, h) \<in> (fstep g ow)\<^sup>*" by simp
  from t0 have "ff_closed g ow (set (t_hexes t0)) (set (t_hexes t0))"
    by (simp add: terr_ok_def ow)
  from closed_reach [OF this xh x(2)] hn show False by simp
qed

lemma find_territories_inv:
  assumes "\<forall>h \<in> set hs. in_grid g h \<and> is_land (hexes g h)"
    and "\<forall>t \<in> set ts. terr_ok g t"
    and "distinct (concat (map t_hexes ts))"
    and "visited = set (concat (map t_hexes ts))"
  shows "(\<forall>t \<in> set (find_territories g hs visited ts). terr_ok g t) \<and>
         distinct (concat (map t_hexes (find_territories g hs visited ts)))"
  using assms
proof (induction hs arbitrary: visited ts)
  case Nil
  then show ?case by simp
next
  case (Cons h hs)
  from Cons.prems(1) have hs: "\<forall>h \<in> set hs. in_grid g h \<and> is_land (hexes g h)"
    and hin: "in_grid g h" and hl: "is_land (hexes g h)" by simp_all
  show ?case
  proof (cases "h \<in> visited \<or> owner (hexes g h) < 0")
    case True
    then have "find_territories g (h # hs) visited ts = find_territories g hs visited ts"
      by simp
    with Cons.IH [OF hs Cons.prems(2,3,4)] show ?thesis by simp
  next
    case False
    define ow where "ow = owner (hexes g h)"
    define region where "region = flood_fill g h ow"
    define t where "t = Territory_init region ow"
    have hok: "cell_ok g ow h" using hl by (simp add: cell_ok_def ow_def)
    note ffp = flood_fill_props [OF hok hin, folded region_def]
    from ffp(2) have ne: "region \<noteq> []" by auto
    have r: "find_territories g (h # hs) visited ts =
        find_territories g hs (visited \<union> set region) (ts @ [t])"
      using False ne by (simp add: Let_def ow_def [symmetric] region_def [symmetric] t_def)
    have tok: "terr_ok g t"
      using ffp ne by (simp add: terr_ok_def t_def Territory_init_def ff_member_def)
    have fresh: "set region \<inter> visited = {}"
    proof -
      have "set region \<inter> set (t_hexes t0) = {}" if "t0 \<in> set ts" for t0
      proof -
        from that Cons.prems(2) have ok0: "terr_ok g t0" by blast
        from that False Cons.prems(4) have "h \<notin> set (t_hexes t0)" by auto
        from flood_fill_fresh [OF hok hin ok0 this] show ?thesis by (simp add: region_def)
      qed
      then show ?thesis unfolding Cons.prems(4) by auto
    qed
    have 2: "\<forall>t \<in> set (ts @ [t]). terr_ok g t" using Cons.prems(2) tok by simp
    have 3: "distinct (concat (map t_hexes (ts @ [t])))"
      using Cons.prems(3) ffp(1) fresh unfolding Cons.prems(4)
      by (simp add: t_def Territory_init_def Int_commute)
    have 4: "visited \<union> set region = set (concat (map t_hexes (ts @ [t])))"
      unfolding Cons.prems(4) by (simp add: t_def Territory_init_def)
    from Cons.IH [OF hs 2 3 4] show ?thesis unfolding r .
  qed
qed

section \<open>Capitals after a refresh\<close>

lemma set_sort_desc [simp]: "set (sort_desc f xs) = set xs"
  by (simp add: sort_desc_def)

lemma clear_capital_flags_props:
  "width (clear_capital_flags ps g) = width g \<and> height (clear_capital_flags ps g) = height g \<and>
   (\<forall>q. hexes (clear_capital_flags ps g) q =
      (if q \<in> set ps then (hexes g q)\<lparr>has_capital := False\<rparr> else hexes g q))"
proof (induction ps arbitrary: g)
  case Nil
  then show ?case by simp
next
  case (Cons p ps)
  define g1 where "g1 = upd_hex p (\<lambda>x. x\<lparr>has_capital := False\<rparr>) g"
  have r: "clear_capital_flags (p # ps) g = clear_capital_flags ps g1" by (simp add: g1_def)
  note IH = Cons.IH [of g1]
  have hx: "\<And>q. hexes g1 q = (if q = p then (hexes g p)\<lparr>has_capital := False\<rparr> else hexes g q)"
    by (simp add: g1_def hexes_upd_hex)
  from IH have wh: "width (clear_capital_flags ps g1) = width g"
    "height (clear_capital_flags ps g1) = height g" by (simp_all add: g1_def)
  from IH have hq: "\<And>q. hexes (clear_capital_flags ps g1) q =
      (if q \<in> set ps then (hexes g1 q)\<lparr>has_capital := False\<rparr> else hexes g1 q)" by blast
  show ?case unfolding r using wh by (simp add: hq hx)
qed

lemma clear_capital_flags_width: "width (clear_capital_flags ps g) = width g"
  and clear_capital_flags_height: "height (clear_capital_flags ps g) = height g"
  and clear_capital_flags_hexes: "hexes (clear_capital_flags ps g) q =
      (if q \<in> set ps then (hexes g q)\<lparr>has_capital := False\<rparr> else hexes g q)"
  using clear_capital_flags_props [of ps g] by blast+

text \<open>What \<open>ensure_capital\<close> can do to the grid: nothing, one update of a member cell, or
  the clearing of the flags of a territory of size below 2.\<close>

lemma upd_hex_upd_hex: "upd_hex h f (upd_hex h f' g) = upd_hex h (\<lambda>x. f (f' x)) g"
  by (simp add: upd_hex_def)

lemma capital_hex_fields:
  "capital_hex g t = (c, t1) \<Longrightarrow>
   t_hexes t1 = t_hexes t \<and> t_owner t1 = t_owner t \<and> gold t1 = gold t"
  by (auto simp: capital_hex_def Let_def split: option.splits if_splits)

lemma capital_hex_None:
  "capital_hex g t = (None, t1) \<Longrightarrow> t1 = t"
  by (auto simp: capital_hex_def Let_def split: option.splits if_splits)

lemma ensure_capital_small:
  "length (t_hexes t) < 2 \<Longrightarrow>
   ensure_capital g t av pref = (clear_capital_flags (t_hexes t) g, t\<lparr>capital_ref := None\<rparr>)"
  by (simp add: ensure_capital_def)

lemma ensure_capital_has:
  "length (t_hexes t) \<ge> 2 \<Longrightarrow> capital_hex g t = (Some c, t1) \<Longrightarrow>
   ensure_capital g t av pref = (g, t1)"
  by (simp add: ensure_capital_def)

lemma ensure_capital_place:
  assumes "length (t_hexes t) \<ge> 2" and "capital_hex g t = (None, t1)"
  shows "\<exists>h F. h \<in> set (t_hexes t) \<and> has_capital (F (hexes g h)) \<and>
           ensure_capital g t av pref = (upd_hex h F g, t\<lparr>capital_ref := Some h\<rparr>)"
proof -
  from assms(2) have t1: "t1 = t" by (rule capital_hex_None)
  from assms(1) obtain a b r where hx: "t_hexes t = a # b # r"
    by (cases "t_hexes t"; cases "tl (t_hexes t)") auto
  let ?P = "\<lambda>h. \<not> has_combat_unit (hexes g h) \<and> \<not> has_castle (hexes g h) \<and> \<not> has_tree (hexes g h)"
  define pf where "pf = (case pref of Some pp \<Rightarrow> find (\<lambda>h. h = pp) (t_hexes t) | None \<Rightarrow> None)"
  define cands where "cands = filter ?P (t_hexes t)"
  define cands2 where "cands2 = (case av of
                            Some av \<Rightarrow>
                              if av \<noteq> {} then
                                (let safe = filter (\<lambda>h. h \<notin> av) cands
                                 in if safe \<noteq> [] then safe else cands)
                              else cands
                          | None \<Rightarrow> cands)"
  define castles where "castles = filter (\<lambda>h. has_castle (hexes g h)) (t_hexes t)"
  define units where "units = sort_desc (\<lambda>h. unit_power (unit (hexes g h)))
                                  (filter (\<lambda>h. has_combat_unit (hexes g h)) (t_hexes t))"
  have ec: "ensure_capital g t av pref =
     (case pf of
        Some h \<Rightarrow> place_capital g t h
      | None \<Rightarrow>
          if cands \<noteq> [] then place_capital g t (hd cands2)
          else (case castles of
                  h # _ \<Rightarrow> place_capital (upd_hex h (\<lambda>x. x\<lparr>has_castle := False\<rparr>) g) t h
                | [] \<Rightarrow>
                   (case units of
                      h # _ \<Rightarrow> place_capital
                                 (upd_hex h (\<lambda>x. x\<lparr>unit := NONE, grave := True,
                                    can_move := False\<rparr>) g) t h
                    | [] \<Rightarrow>
                       (case t_hexes t of
                          h # _ \<Rightarrow> place_capital (upd_hex h (\<lambda>x. x\<lparr>unit := NONE\<rparr>) g) t h
                        | [] \<Rightarrow> (g, t)))))"
    unfolding ensure_capital_def pf_def cands_def cands2_def castles_def units_def Let_def
    using assms(1) assms(2) unfolding t1 by simp
  have pc: "\<And>h F g0. place_capital (upd_hex h F g) t h =
      (upd_hex h (\<lambda>x. (F x)\<lparr>has_capital := True, grave := False\<rparr>) g, t\<lparr>capital_ref := Some h\<rparr>)"
    by (simp add: place_capital_def upd_hex_upd_hex)
  have pc0: "\<And>h. place_capital g t h =
      (upd_hex h (\<lambda>x. x\<lparr>has_capital := True, grave := False\<rparr>) g, t\<lparr>capital_ref := Some h\<rparr>)"
    by (simp add: place_capital_def)
  have fin: "\<And>h F. h \<in> set (t_hexes t) \<Longrightarrow> has_capital (F (hexes g h)) \<Longrightarrow>
      ensure_capital g t av pref = (upd_hex h F g, t\<lparr>capital_ref := Some h\<rparr>) \<Longrightarrow> ?thesis"
    by blast
  show ?thesis
  proof (cases pf)
    case (Some h)
    then have "h \<in> set (t_hexes t)"
      by (auto simp: pf_def find_Some_iff split: option.splits) (metis nth_mem)
    then show ?thesis
      by (rule fin [of h "\<lambda>x. x\<lparr>has_capital := True, grave := False\<rparr>"])
        (simp_all add: ec pc0 Some)
  next
    case None
    show ?thesis
    proof (cases "cands \<noteq> []")
      case True
      have c2: "cands2 \<noteq> []" and sub: "set cands2 \<subseteq> set cands"
        using True by (auto simp: cands2_def Let_def split: option.splits)
      from hd_in_set [OF c2] sub have "hd cands2 \<in> set cands" by blast
      then have "hd cands2 \<in> set (t_hexes t)" by (simp add: cands_def)
      then show ?thesis
        by (rule fin [of "hd cands2" "\<lambda>x. x\<lparr>has_capital := True, grave := False\<rparr>"])
          (simp_all add: ec pc0 None True)
    next
      case nc: False
      show ?thesis
      proof (cases castles)
        case (Cons h r')
        then have "h \<in> set castles" by simp
        then have "h \<in> set (t_hexes t)" by (simp add: castles_def)
        then show ?thesis
          by (rule fin [of h "\<lambda>x. x\<lparr>has_castle := False, has_capital := True, grave := False\<rparr>"])
            (use nc in \<open>simp_all add: ec pc None Cons\<close>)
      next
        case cn: Nil
        show ?thesis
        proof (cases units)
          case (Cons h r')
          then have "h \<in> set units" by simp
          then have "h \<in> set (t_hexes t)" by (simp add: units_def)
          then show ?thesis
            by (rule fin [of h "\<lambda>x. x\<lparr>unit := NONE, grave := True, can_move := False,
                has_capital := True, grave := False\<rparr>"])
              (use nc in \<open>simp_all add: ec pc None cn Cons\<close>)
        next
          case Nil
          have "a \<in> set (t_hexes t)" by (simp add: hx)
          then show ?thesis
            by (rule fin [of a "\<lambda>x. x\<lparr>unit := NONE, has_capital := True, grave := False\<rparr>"])
              (use nc in \<open>simp_all add: ec pc None cn Nil hx\<close>)
        qed
      qed
    qed
  qed
qed

text \<open>Auxiliary notions for the proofs: the capital invariant of one territory, and the
  relation between a territory found by the flood fill and the one the last loop makes of
  it.\<close>

definition cap_inv :: "HexGrid \<Rightarrow> Territory \<Rightarrow> bool" where
  "cap_inv g t \<longleftrightarrow>
     (length (t_hexes t) \<ge> 2 \<longrightarrow> (\<exists>!p. p \<in> set (t_hexes t) \<and> has_capital (hexes g p))) \<and>
     (length (t_hexes t) \<le> 1 \<longrightarrow> (\<forall>p \<in> set (t_hexes t). \<not> has_capital (hexes g p)))"

lemma cap_inv_cong:
  "t_hexes t' = t_hexes t \<Longrightarrow> (\<And>p. p \<in> set (t_hexes t) \<Longrightarrow> hexes g' p = hexes g p) \<Longrightarrow>
   cap_inv g' t' = cap_inv g t"
proof -
  assume h: "t_hexes t' = t_hexes t" and e: "\<And>p. p \<in> set (t_hexes t) \<Longrightarrow> hexes g' p = hexes g p"
  have "(\<lambda>p. p \<in> set (t_hexes t) \<and> has_capital (hexes g' p)) =
        (\<lambda>p. p \<in> set (t_hexes t) \<and> has_capital (hexes g p))"
    using e by (auto simp: fun_eq_iff)
  then have 1: "(\<exists>!p. p \<in> set (t_hexes t) \<and> has_capital (hexes g' p)) =
        (\<exists>!p. p \<in> set (t_hexes t) \<and> has_capital (hexes g p))"
    by (rule arg_cong [where f = Ex1])
  have 2: "(\<forall>p \<in> set (t_hexes t). \<not> has_capital (hexes g' p)) =
        (\<forall>p \<in> set (t_hexes t). \<not> has_capital (hexes g p))"
    using e by simp
  show ?thesis unfolding cap_inv_def h 1 2 ..
qed

lemma ensure_capital_frame:
  assumes "ensure_capital g t av pref = (g', t')"
  shows "width g' = width g" and "height g' = height g"
    and "\<And>p. p \<notin> set (t_hexes t) \<Longrightarrow> hexes g' p = hexes g p"
    and "t_hexes t' = t_hexes t" and "t_owner t' = t_owner t" and "gold t' = gold t"
proof -
  have "width g' = width g \<and> height g' = height g \<and>
      (\<forall>p. p \<notin> set (t_hexes t) \<longrightarrow> hexes g' p = hexes g p) \<and>
      t_hexes t' = t_hexes t \<and> t_owner t' = t_owner t \<and> gold t' = gold t"
  proof (cases "length (t_hexes t) < 2")
    case True
    from ensure_capital_small [OF True, of g av pref] assms
    have "g' = clear_capital_flags (t_hexes t) g" "t' = t\<lparr>capital_ref := None\<rparr>" by simp_all
    then show ?thesis
      by (simp add: clear_capital_flags_width clear_capital_flags_height clear_capital_flags_hexes)
  next
    case False
    then have big: "length (t_hexes t) \<ge> 2" by simp
    obtain c t1 where ch: "capital_hex g t = (c, t1)" by (cases "capital_hex g t")
    note f1 = capital_hex_fields [OF ch]
    show ?thesis
    proof (cases c)
      case None
      from ensure_capital_place [OF big ch [unfolded None], of av pref] assms
      obtain h F where "h \<in> set (t_hexes t)" "g' = upd_hex h F g" "t' = t\<lparr>capital_ref := Some h\<rparr>"
        by auto
      then show ?thesis by (auto simp: hexes_upd_hex)
    next
      case (Some c')
      from ensure_capital_has [OF big ch [unfolded Some], of av pref] assms f1
      show ?thesis by simp
    qed
  qed
  then show "width g' = width g" "height g' = height g"
    "\<And>p. p \<notin> set (t_hexes t) \<Longrightarrow> hexes g' p = hexes g p"
    "t_hexes t' = t_hexes t" "t_owner t' = t_owner t" "gold t' = gold t"
    by blast+
qed

lemma ensure_capital_unique:
  assumes "ensure_capital g t av pref = (g', t')"
    and "capital_ref t = None"
    and "\<forall>p \<in> set (t_hexes t). \<not> has_capital (hexes g p)"
  shows "cap_inv g' t'"
proof (cases "length (t_hexes t) < 2")
  case True
  from ensure_capital_small [OF True, of g av pref] assms(1)
  have "g' = clear_capital_flags (t_hexes t) g" "t' = t\<lparr>capital_ref := None\<rparr>" by simp_all
  with True show ?thesis
    by (simp add: cap_inv_def clear_capital_flags_hexes)
next
  case False
  then have big: "length (t_hexes t) \<ge> 2" by simp
  have "find (\<lambda>p. has_capital (hexes g p)) (t_hexes t) = None"
    using assms(3) by (simp add: find_None_iff)
  with assms(2) have ch: "capital_hex g t = (None, t)"
    by (simp add: capital_hex_def)
  from ensure_capital_place [OF big ch, of av pref] assms(1)
  obtain h F where h: "h \<in> set (t_hexes t)" "has_capital (F (hexes g h))"
    "g' = upd_hex h F g" "t' = t\<lparr>capital_ref := Some h\<rparr>"
    by auto
  have "\<exists>!p. p \<in> set (t_hexes t) \<and> has_capital (hexes g' p)"
  proof (rule ex1I [of _ h])
    show "h \<in> set (t_hexes t) \<and> has_capital (hexes g' h)"
      using h by (simp add: hexes_upd_hex)
  next
    fix p assume "p \<in> set (t_hexes t) \<and> has_capital (hexes g' p)"
    with assms(3) h(3) show "p = h"
      by (cases "p = h") (auto simp: hexes_upd_hex)
  qed
  with big h(4) show ?thesis by (simp add: cap_inv_def)
qed

lemma merged_caps_of_cong:
  "t_hexes t' = t_hexes t \<Longrightarrow> t_owner t' = t_owner t \<Longrightarrow>
   merged_caps_of oc t' = merged_caps_of oc t"
proof -
  assume a: "t_hexes t' = t_hexes t" and b: "t_owner t' = t_owner t"
  show ?thesis unfolding merged_caps_of_def a b ..
qed

definition restored :: "(pos \<rightharpoonup> int \<times> int \<times> int) \<Rightarrow> Territory \<Rightarrow> Territory \<Rightarrow> bool" where
  "restored oc t t' \<longleftrightarrow>
     t_hexes t' = t_hexes t \<and> t_owner t' = t_owner t \<and>
     gold t' = sum_list (map (\<lambda>c. fst (snd c)) (merged_caps_of oc t))"

lemma restore_loop_fields:
  "restore_loop g oc pr av ts = (g', ts') \<Longrightarrow>
   list_all2 (restored oc) ts ts' \<and> width g' = width g \<and> height g' = height g \<and>
   (\<forall>p. p \<notin> set (concat (map t_hexes ts)) \<longrightarrow> hexes g' p = hexes g p)"
proof (induction ts arbitrary: g g' ts')
  case Nil
  then show ?case by simp
next
  case (Cons t ts)
  define t1 where "t1 = t\<lparr>gold := sum_list (map (\<lambda>c. fst (snd c)) (merged_caps_of oc t))\<rparr>"
  obtain ga t2 where ec: "ensure_capital g t1 (av (t_owner t))
      (preferred_cap_of pr (merged_caps_of oc t)) = (ga, t2)"
    by (cases "ensure_capital g t1 (av (t_owner t)) (preferred_cap_of pr (merged_caps_of oc t))")
  obtain gb ts2 where rl: "restore_loop ga oc pr av ts = (gb, ts2)"
    by (cases "restore_loop ga oc pr av ts")
  from Cons.prems have res: "g' = gb" "ts' = t2 # ts2"
    by (simp_all add: Let_def t1_def [symmetric] ec rl)
  note fr = ensure_capital_frame [OF ec]
  note IH = Cons.IH [OF rl]
  have r: "restored oc t t2"
    using fr(4,5,6) by (simp add: restored_def t1_def)
  from IH have la: "list_all2 (restored oc) ts ts2" and w: "width gb = width ga"
    and hh: "height gb = height ga"
    and f2: "\<And>p. p \<notin> set (concat (map t_hexes ts)) \<Longrightarrow> hexes gb p = hexes ga p"
    by blast+
  have frame: "hexes gb p = hexes g p" if "p \<notin> set (concat (map t_hexes (t # ts)))" for p
  proof -
    from that have a: "p \<notin> set (t_hexes t1)" and b: "p \<notin> set (concat (map t_hexes ts))"
      by (simp_all add: t1_def)
    from f2 [OF b] fr(3) [OF a] show ?thesis by simp
  qed
  have "list_all2 (restored oc) (t # ts) (t2 # ts2)" using la r by simp
  moreover have "width gb = width g" "height gb = height g" using w hh fr(1,2) by simp_all
  ultimately show ?case unfolding res using frame by blast
qed

lemma restore_loop_capitals:
  "restore_loop g oc pr av ts = (g', ts') \<Longrightarrow> distinct (concat (map t_hexes ts)) \<Longrightarrow>
   \<forall>t \<in> set ts. capital_ref t = None \<Longrightarrow>
   \<forall>p \<in> set (concat (map t_hexes ts)). \<not> has_capital (hexes g p) \<Longrightarrow>
   \<forall>t' \<in> set ts'. cap_inv g' t'"
proof (induction ts arbitrary: g g' ts')
  case Nil
  then show ?case by simp
next
  case (Cons t ts)
  define t1 where "t1 = t\<lparr>gold := sum_list (map (\<lambda>c. fst (snd c)) (merged_caps_of oc t))\<rparr>"
  obtain ga t2 where ec: "ensure_capital g t1 (av (t_owner t))
      (preferred_cap_of pr (merged_caps_of oc t)) = (ga, t2)"
    by (cases "ensure_capital g t1 (av (t_owner t)) (preferred_cap_of pr (merged_caps_of oc t))")
  obtain gb ts2 where rl: "restore_loop ga oc pr av ts = (gb, ts2)"
    by (cases "restore_loop ga oc pr av ts")
  from Cons.prems(1) have res: "g' = gb" "ts' = t2 # ts2"
    by (simp_all add: Let_def t1_def [symmetric] ec rl)
  note fr = ensure_capital_frame [OF ec]
  have h1: "t_hexes t1 = t_hexes t" by (simp add: t1_def)
  from Cons.prems(2) have d: "distinct (concat (map t_hexes ts))"
    and disj: "set (t_hexes t) \<inter> set (concat (map t_hexes ts)) = {}" by simp_all
  have c1: "capital_ref t1 = None" using Cons.prems(3) by (simp add: t1_def)
  have n1: "\<forall>p \<in> set (t_hexes t1). \<not> has_capital (hexes g p)"
    using Cons.prems(4) by (simp add: h1)
  from ensure_capital_unique [OF ec c1 n1] have inv2: "cap_inv ga t2" .
  have na: "\<forall>p \<in> set (concat (map t_hexes ts)). \<not> has_capital (hexes ga p)"
  proof
    fix p assume p: "p \<in> set (concat (map t_hexes ts))"
    with disj have "p \<notin> set (t_hexes t1)" unfolding h1 by blast
    from fr(3) [OF this] Cons.prems(4) p show "\<not> has_capital (hexes ga p)" by simp
  qed
  from Cons.prems(3) have cn: "\<forall>t \<in> set ts. capital_ref t = None" by simp
  from Cons.IH [OF rl d cn na] have rest: "\<forall>t' \<in> set ts2. cap_inv gb t'" .
  from restore_loop_fields [OF rl]
  have frame: "\<And>p. p \<notin> set (concat (map t_hexes ts)) \<Longrightarrow> hexes gb p = hexes ga p" by blast
  have "cap_inv gb t2 = cap_inv ga t2"
  proof (rule cap_inv_cong [OF refl])
    fix p assume "p \<in> set (t_hexes t2)"
    with fr(4) h1 disj have "p \<notin> set (concat (map t_hexes ts))" by auto
    then show "hexes gb p = hexes ga p" by (rule frame)
  qed
  with inv2 rest show ?case unfolding res by simp
qed

lemma refresh_territories_parts:
  obtains ts0 oc g1 ts1 g2 ts2 where
    "old_caps_loop (grid s) (territories s) Map.empty = (ts0, oc)"
    "g1 = clear_capital_flags (all_land (grid s)) (grid s)"
    "ts1 = find_territories g1 (all_land g1) {} []"
    "restore_loop g1 oc (priority_cap (grid s) ts0 mp) av ts1 = (g2, ts2)"
    "refresh_territories s av mp = s\<lparr>grid := g2, territories := ts2\<rparr>"
proof -
  obtain ts0 oc where a: "old_caps_loop (grid s) (territories s) Map.empty = (ts0, oc)"
    by (cases "old_caps_loop (grid s) (territories s) Map.empty")
  define g1 where "g1 = clear_capital_flags (all_land (grid s)) (grid s)"
  define ts1 where "ts1 = find_territories g1 (all_land g1) {} []"
  obtain g2 ts2 where b: "restore_loop g1 oc (priority_cap (grid s) ts0 mp) av ts1 = (g2, ts2)"
    by (cases "restore_loop g1 oc (priority_cap (grid s) ts0 mp) av ts1")
  have "refresh_territories s av mp = s\<lparr>grid := g2, territories := ts2\<rparr>"
    by (simp add: refresh_territories_def a Let_def g1_def [symmetric] ts1_def [symmetric] b)
  with a g1_def ts1_def b show ?thesis by (rule that)
qed

lemma new_territories_ok:
  assumes "g1 = clear_capital_flags (all_land g) g"
    and "ts1 = find_territories g1 (all_land g1) {} []"
  shows "\<forall>t \<in> set ts1. terr_ok g1 t" and "distinct (concat (map t_hexes ts1))"
    and "\<forall>p \<in> set (concat (map t_hexes ts1)). \<not> has_capital (hexes g1 p)"
proof -
  have inv: "(\<forall>t \<in> set ts1. terr_ok g1 t) \<and> distinct (concat (map t_hexes ts1))"
    unfolding assms(2)
    by (rule find_territories_inv) (simp_all add: all_land_set)
  then show "\<forall>t \<in> set ts1. terr_ok g1 t" "distinct (concat (map t_hexes ts1))" by simp_all
  have al: "all_land g1 = all_land g"
    unfolding assms(1)
    by (rule all_land_cong)
      (simp_all add: clear_capital_flags_width clear_capital_flags_height
        clear_capital_flags_hexes)
  show "\<forall>p \<in> set (concat (map t_hexes ts1)). \<not> has_capital (hexes g1 p)"
  proof
    fix p assume "p \<in> set (concat (map t_hexes ts1))"
    then obtain t where t: "t \<in> set ts1" "p \<in> set (t_hexes t)" by auto
    with inv have "cell_ok g1 (t_owner t) p" "in_grid g1 p" by (simp_all add: terr_ok_def)
    then have "p \<in> set (all_land g1)" by (simp add: all_land_set cell_ok_def)
    then have "p \<in> set (all_land g)" by (simp add: al)
    then show "\<not> has_capital (hexes g1 p)"
      unfolding assms(1) by (simp add: clear_capital_flags_hexes)
  qed
qed

text \<open>Claim C2. After any call of \<open>refresh_territories\<close>, every territory of the state
  lists each member cell once; if it has at least two cells, exactly one of them has
  \<open>has_capital\<close> set, and if it has at most one cell, none has.\<close>

theorem capital_invariant:
  "\<forall>t \<in> set (territories (refresh_territories s capital_avoid merge_priority_pos)).
     distinct (t_hexes t) \<and>
     (length (t_hexes t) \<ge> 2 \<longrightarrow>
        (\<exists>!p. p \<in> set (t_hexes t) \<and>
           has_capital (hexes (grid (refresh_territories s capital_avoid merge_priority_pos)) p))) \<and>
     (length (t_hexes t) \<le> 1 \<longrightarrow>
        (\<forall>p \<in> set (t_hexes t).
           \<not> has_capital (hexes (grid (refresh_territories s capital_avoid merge_priority_pos)) p)))"
proof -
  obtain ts0 oc g1 ts1 g2 ts2 where p:
    "old_caps_loop (grid s) (territories s) Map.empty = (ts0, oc)"
    "g1 = clear_capital_flags (all_land (grid s)) (grid s)"
    "ts1 = find_territories g1 (all_land g1) {} []"
    "restore_loop g1 oc (priority_cap (grid s) ts0 merge_priority_pos) capital_avoid ts1 = (g2, ts2)"
    "refresh_territories s capital_avoid merge_priority_pos = s\<lparr>grid := g2, territories := ts2\<rparr>"
    by (rule refresh_territories_parts)
  note nt = new_territories_ok [OF p(2,3)]
  from nt(1) have cn: "\<forall>t \<in> set ts1. capital_ref t = None" by (simp add: terr_ok_def)
  from restore_loop_capitals [OF p(4) nt(2) cn nt(3)] have ci: "\<forall>t' \<in> set ts2. cap_inv g2 t'" .
  from restore_loop_fields [OF p(4)] have la: "list_all2 (restored oc) ts1 ts2" by blast
  have d: "distinct (t_hexes t')" if "t' \<in> set ts2" for t'
  proof -
    from that la obtain t where "t \<in> set ts1" "restored oc t t'"
      by (metis in_set_conv_nth list_all2_conv_all_nth)
    with nt(2) show ?thesis by (auto simp: restored_def distinct_concat_iff)
  qed
  show ?thesis
    unfolding p(5) using ci d by (simp add: cap_inv_def)
qed

theorem capital_invariant_witness:
  "map t_hexes (territories (refresh_territories column_state Map.empty None)) =
     [[(0, 0), (0, 1), (0, 2), (0, 3), (0, 4), (0, 5)], [(0, 6)]] \<and>
   (\<exists>!p. p \<in> set [(0, 0), (0, 1), (0, 2), (0, 3), (0, 4), (0, 5)] \<and>
      has_capital (hexes (grid (refresh_territories column_state Map.empty None)) p)) \<and>
   has_capital (hexes (grid (refresh_territories column_state Map.empty None)) (0, 0)) \<and>
   \<not> has_capital (hexes (grid (refresh_territories column_state Map.empty None)) (0, 6))"
proof -
  let ?s = "refresh_territories column_state Map.empty None"
  have L: "map t_hexes (territories ?s) =
      [[(0, 0), (0, 1), (0, 2), (0, 3), (0, 4), (0, 5)], [(0, 6)]]"
    by code_simp
  then obtain a b where ab: "territories ?s = [a, b]"
    and a: "t_hexes a = [(0, 0), (0, 1), (0, 2), (0, 3), (0, 4), (0, 5)]"
    and b: "t_hexes b = [(0, 6)]"
    by (auto simp: map_eq_Cons_conv)
  from capital_invariant [of column_state Map.empty None] ab
  have ia: "length (t_hexes a) \<ge> 2 \<longrightarrow>
        (\<exists>!p. p \<in> set (t_hexes a) \<and> has_capital (hexes (grid ?s) p))"
    and ib: "length (t_hexes b) \<le> 1 \<longrightarrow>
        (\<forall>p \<in> set (t_hexes b). \<not> has_capital (hexes (grid ?s) p))"
    by simp_all
  from ia have 1: "\<exists>!p. p \<in> set [(0, 0), (0, 1), (0, 2), (0, 3), (0, 4), (0, 5)] \<and>
      has_capital (hexes (grid ?s) p)"
    unfolding a by simp
  from ib have 2: "\<not> has_capital (hexes (grid ?s) (0, 6))"
    unfolding b by simp
  have 3: "has_capital (hexes (grid ?s) (0, 0))" by code_simp
  from L 1 2 3 show ?thesis by blast
qed

section \<open>Gold across a merge\<close>

text \<open>Auxiliary notion for the proofs: the entry that the first loop of
  \<open>refresh_territories\<close> stores for an old territory.\<close>

definition cap_info :: "Territory \<Rightarrow> int \<times> int \<times> int" where
  "cap_info t = (t_owner t, gold t, int (length (t_hexes t)))"

lemma old_caps_loop_step:
  "snd (old_caps_loop g (t # ts) m) =
     snd (old_caps_loop g ts
            (case fst (capital_hex g t) of Some c \<Rightarrow> m(c \<mapsto> cap_info t) | None \<Rightarrow> m))"
proof -
  obtain c t' where ch: "capital_hex g t = (c, t')" by (cases "capital_hex g t")
  from capital_hex_fields [OF ch] have "cap_info t' = cap_info t" by (simp add: cap_info_def)
  then show ?thesis
    by (simp add: ch cap_info_def split: prod.splits option.splits)
qed

lemma old_caps_lookup_none:
  "\<forall>t \<in> set ts. fst (capital_hex g t) \<noteq> Some c \<Longrightarrow> snd (old_caps_loop g ts m) c = m c"
proof (induction ts arbitrary: m)
  case Nil
  then show ?case by simp
next
  case (Cons t ts)
  from Cons.prems have t: "fst (capital_hex g t) \<noteq> Some c"
    and r: "\<forall>t \<in> set ts. fst (capital_hex g t) \<noteq> Some c" by simp_all
  show ?case
    unfolding old_caps_loop_step Cons.IH [OF r]
    using t by (auto split: option.splits)
qed

lemma old_caps_lookup_last:
  "fst (capital_hex g t) = Some c \<Longrightarrow> \<forall>u \<in> set ys. fst (capital_hex g u) \<noteq> Some c \<Longrightarrow>
   snd (old_caps_loop g (xs @ t # ys) m) c = Some (cap_info t)"
proof (induction xs arbitrary: m)
  case Nil
  show ?case
    unfolding append_Nil old_caps_loop_step old_caps_lookup_none [OF Nil(2)]
    using Nil(1) by simp
next
  case (Cons x xs)
  show ?case
    unfolding append_Cons old_caps_loop_step by (rule Cons.IH [OF Cons.prems])
qed

lemma sum_list_map_filter:
  "sum_list (map f (List.map_filter F xs)) =
   sum_list (map (\<lambda>x. case F x of Some y \<Rightarrow> f y | None \<Rightarrow> (0::int)) xs)"
  by (induction xs) (simp_all add: map_filter_simps split: option.splits)

lemma old_caps_lookup_some:
  "snd (old_caps_loop g ts m) c = Some v \<Longrightarrow>
   m c = Some v \<or> (\<exists>t \<in> set ts. fst (capital_hex g t) = Some c \<and> v = cap_info t)"
proof (induction ts arbitrary: m)
  case Nil
  then show ?case by simp
next
  case (Cons t ts)
  let ?m = "case fst (capital_hex g t) of Some c \<Rightarrow> m(c \<mapsto> cap_info t) | None \<Rightarrow> m"
  from Cons.prems have "snd (old_caps_loop g ts ?m) c = Some v"
    unfolding old_caps_loop_step .
  from Cons.IH [OF this] show ?case
    by (auto split: option.splits if_splits)
qed

text \<open>What \<open>refresh_territories\<close> carries over from one cell to a new territory of the
  given owner: the treasury stored in \<open>old_caps\<close> for an old capital of that owner there.\<close>

definition carried :: "(pos \<rightharpoonup> int \<times> int \<times> int) \<Rightarrow> int \<Rightarrow> pos \<Rightarrow> int" where
  "carried oc ow h =
     (case oc h of
        Some (prev_owner, prev_gold, prev_size) \<Rightarrow> if prev_owner = ow then prev_gold else 0
      | None \<Rightarrow> 0)"

lemma find_mem: "find P xs = Some x \<Longrightarrow> x \<in> set xs"
  by (induction xs) (auto split: if_splits)

lemma capital_hex_mem: "fst (capital_hex g t) = Some c \<Longrightarrow> c \<in> set (t_hexes t)"
  by (auto simp: capital_hex_def Let_def split: option.splits if_splits dest: find_mem)

lemma distinct_concat_disjoint:
  "distinct (concat xss) \<Longrightarrow> k < length xss \<Longrightarrow> l < length xss \<Longrightarrow> k \<noteq> l \<Longrightarrow>
   set (xss ! k) \<inter> set (xss ! l) = {}"
proof (induction xss arbitrary: k l)
  case Nil
  then show ?case by simp
next
  case (Cons xs xss)
  from Cons.prems(1) have d: "distinct (concat xss)"
    and o: "set xs \<inter> (\<Union>ys \<in> set xss. set ys) = {}" by auto
  show ?case
  proof (cases k)
    case 0
    with Cons.prems obtain l' where l: "l = Suc l'" "l' < length xss" by (cases l) auto
    then have "xss ! l' \<in> set xss" by simp
    with o have "set xs \<inter> set (xss ! l') = {}" by blast
    with 0 l show ?thesis by simp
  next
    case (Suc k')
    show ?thesis
    proof (cases l)
      case 0
      from Suc Cons.prems have "xss ! k' \<in> set xss" by simp
      with o have "set (xss ! k') \<inter> set xs = {}" by blast
      with 0 Suc show ?thesis by simp
    next
      case l: (Suc l')
      from Cons.IH [OF d, of k' l'] Suc l Cons.prems show ?thesis by simp
    qed
  qed
qed

text \<open>The treasury of a new territory is the sum of what its cells carry; a new territory
  that holds no old capital of its owner starts with an empty treasury.\<close>

lemma refresh_gold_sum:
  assumes t': "t' \<in> set (territories (refresh_territories s capital_avoid merge_priority_pos))"
  shows "gold t' =
    sum (carried (snd (old_caps_loop (grid s) (territories s) Map.empty)) (t_owner t'))
      (set (t_hexes t'))"
proof -
  let ?ts = "territories s" and ?g = "grid s"
  obtain ts0 oc g1 ts1 g2 ts2 where p:
    "old_caps_loop ?g ?ts Map.empty = (ts0, oc)"
    "g1 = clear_capital_flags (all_land ?g) ?g"
    "ts1 = find_territories g1 (all_land g1) {} []"
    "restore_loop g1 oc (priority_cap ?g ts0 merge_priority_pos) capital_avoid ts1 = (g2, ts2)"
    "refresh_territories s capital_avoid merge_priority_pos = s\<lparr>grid := g2, territories := ts2\<rparr>"
    by (rule refresh_territories_parts)
  from p(1) have oc: "snd (old_caps_loop ?g ?ts Map.empty) = oc" by simp
  note nt = new_territories_ok [OF p(2,3)]
  from restore_loop_fields [OF p(4)] have la: "list_all2 (restored oc) ts1 ts2" by blast
  from t' have "t' \<in> set ts2" by (simp add: p(5))
  with la obtain t0 where t0: "t0 \<in> set ts1" "restored oc t0 t'"
    by (metis in_set_conv_nth list_all2_conv_all_nth)
  from t0 nt(2) have d: "distinct (t_hexes t')"
    by (auto simp: restored_def distinct_concat_iff)
  have G: "carried oc (t_owner t') = (\<lambda>h. case (case oc h of
              Some (prev_owner, prev_gold, prev_size) \<Rightarrow>
                if prev_owner = t_owner t' then Some (h, prev_gold, prev_size) else None
            | None \<Rightarrow> None) of Some y \<Rightarrow> fst (snd y) | None \<Rightarrow> (0::int))"
    by (rule ext) (simp add: carried_def split: option.splits)
  from t0(2) have "gold t' = sum_list (map (\<lambda>c. fst (snd c)) (merged_caps_of oc t'))"
    by (simp add: restored_def merged_caps_of_cong [of t' t0])
  also have "\<dots> = sum_list (map (carried oc (t_owner t')) (t_hexes t'))"
    unfolding merged_caps_of_def sum_list_map_filter G ..
  also have "\<dots> = sum (carried oc (t_owner t')) (set (t_hexes t'))"
    using d by (rule sum_list_distinct_conv_sum_set)
  finally show ?thesis unfolding oc .
qed

lemma refresh_gold_without_old_capital:
  assumes t': "t' \<in> set (territories (refresh_territories s capital_avoid merge_priority_pos))"
    and no: "\<forall>t \<in> set (territories s). t_owner t = t_owner t' \<longrightarrow>
        (\<forall>c. fst (capital_hex (grid s) t) = Some c \<longrightarrow> c \<notin> set (t_hexes t'))"
  shows "gold t' = 0"
proof -
  define oc where "oc = snd (old_caps_loop (grid s) (territories s) Map.empty)"
  have "carried oc (t_owner t') h = 0" if h: "h \<in> set (t_hexes t')" for h
  proof (cases "oc h")
    case None
    then show ?thesis by (simp add: carried_def)
  next
    case (Some v)
    from old_caps_lookup_some [of "grid s" "territories s" Map.empty h v] Some
    obtain t where t: "t \<in> set (territories s)" "fst (capital_hex (grid s) t) = Some h"
      "v = cap_info t" unfolding oc_def by auto
    with no h have "t_owner t \<noteq> t_owner t'" by blast
    then show ?thesis by (simp add: carried_def Some t(3) cap_info_def)
  qed
  then have "sum (carried oc (t_owner t')) (set (t_hexes t')) = 0" by simp
  with refresh_gold_sum [OF t'] show ?thesis by (simp add: oc_def)
qed

text \<open>Claim C6. When \<open>refresh_territories\<close> puts two different old territories of one
  owner into one new territory of that owner, and no other old territory of that owner
  reaches into it, the treasury of the new territory is the sum of the two old treasuries.
  The old territories are pairwise separate (no cell is listed twice), as every refresh
  leaves them, and a territory without a capital holds no gold, as is the case for the
  player who captures: a single cell has no capital, and the refresh at the start of the
  turn has emptied its treasury.\<close>

theorem merge_conserves_gold:
  assumes ij: "i < length (territories s)" "j < length (territories s)" "i \<noteq> j"
    and dist: "distinct (concat (map t_hexes (territories s)))"
    and ei: "fst (capital_hex (grid s) (territories s ! i)) = None \<longrightarrow>
               gold (territories s ! i) = 0"
    and ej: "fst (capital_hex (grid s) (territories s ! j)) = None \<longrightarrow>
               gold (territories s ! j) = 0"
    and t': "t' \<in> set (territories (refresh_territories s capital_avoid merge_priority_pos))"
    and oi: "t_owner (territories s ! i) = t_owner t'"
    and oj: "t_owner (territories s ! j) = t_owner t'"
    and si: "set (t_hexes (territories s ! i)) \<subseteq> set (t_hexes t')"
    and sj: "set (t_hexes (territories s ! j)) \<subseteq> set (t_hexes t')"
    and others: "\<forall>k < length (territories s). k \<noteq> i \<longrightarrow> k \<noteq> j \<longrightarrow>
        t_owner (territories s ! k) = t_owner t' \<longrightarrow>
        set (t_hexes (territories s ! k)) \<inter> set (t_hexes t') = {}"
  shows "gold t' = gold (territories s ! i) + gold (territories s ! j)"
proof -
  let ?ts = "territories s" and ?g = "grid s"
  define cap where "cap k = fst (capital_hex ?g (?ts ! k))" for k
  define oc where "oc = snd (old_caps_loop ?g ?ts Map.empty)"
  define G where "G = carried oc (t_owner t')"
  from refresh_gold_sum [OF t'] have gold: "gold t' = sum G (set (t_hexes t'))"
    by (simp add: G_def oc_def)
  note oc = oc_def
  \<comment> \<open>an old capital belongs to one old territory only\<close>
  have mem: "c \<in> set (t_hexes (?ts ! k))" if "cap k = Some c" for k c
    using that unfolding cap_def by (rule capital_hex_mem)
  have uniq: "k = l" if k: "k < length ?ts" "cap k = Some c" and l: "l < length ?ts" "cap l = Some c"
    for k l c
  proof (rule ccontr)
    assume "k \<noteq> l"
    with distinct_concat_disjoint [of "map t_hexes ?ts" k l] dist k(1) l(1)
    have "set (t_hexes (?ts ! k)) \<inter> set (t_hexes (?ts ! l)) = {}" by simp
    with mem [OF k(2)] mem [OF l(2)] show False by blast
  qed
  have sp: "\<And>k. k < length ?ts \<Longrightarrow> ?ts = take k ?ts @ ?ts ! k # drop (Suc k) ?ts"
    by (simp add: id_take_nth_drop)
  have entry: "oc c = Some (cap_info (?ts ! k))" if k: "k < length ?ts" "cap k = Some c" for k c
  proof -
    have "fst (capital_hex ?g u) \<noteq> Some c" if u: "u \<in> set (drop (Suc k) ?ts)" for u
    proof
      assume e: "fst (capital_hex ?g u) = Some c"
      from u obtain n where n: "n < length ?ts - Suc k" "u = ?ts ! (Suc k + n)"
        by (auto simp: in_set_conv_nth)
      define l where "l = Suc k + n"
      from n have l: "l < length ?ts" "l > k" "u = ?ts ! l" by (simp_all add: l_def)
      from e l(3) have "cap l = Some c" by (simp add: cap_def)
      from uniq [OF k l(1) this] l(2) show False by simp
    qed
    then have "\<forall>u \<in> set (drop (Suc k) ?ts). fst (capital_hex ?g u) \<noteq> Some c" by blast
    from old_caps_lookup_last [OF k(2) [unfolded cap_def] this, of "take k ?ts" Map.empty]
    show ?thesis unfolding oc using sp [OF k(1)] by simp
  qed
  \<comment> \<open>what each of the two old territories brings\<close>
  have part: "set_option (cap k) \<subseteq> set (t_hexes t') \<and> sum G (set_option (cap k)) = gold (?ts ! k)"
    if k: "k < length ?ts" and ow: "t_owner (?ts ! k) = t_owner t'"
      and sub: "set (t_hexes (?ts ! k)) \<subseteq> set (t_hexes t')"
      and em: "cap k = None \<longrightarrow> gold (?ts ! k) = 0" for k
  proof (cases "cap k")
    case None
    with em show ?thesis by simp
  next
    case (Some c)
    from entry [OF k Some] have "G c = gold (?ts ! k)"
      by (simp add: G_def carried_def cap_info_def ow)
    moreover from mem [OF Some] sub have "c \<in> set (t_hexes t')" by blast
    ultimately show ?thesis using Some by simp
  qed
  from part [OF ij(1) oi si] ei have pi: "set_option (cap i) \<subseteq> set (t_hexes t')"
    "sum G (set_option (cap i)) = gold (?ts ! i)" by (simp_all add: cap_def)
  from part [OF ij(2) oj sj] ej have pj: "set_option (cap j) \<subseteq> set (t_hexes t')"
    "sum G (set_option (cap j)) = gold (?ts ! j)" by (simp_all add: cap_def)
  have G0: "G h = 0" if h: "h \<in> set (t_hexes t') - (set_option (cap i) \<union> set_option (cap j))" for h
  proof (cases "oc h")
    case None
    then show ?thesis by (simp add: G_def carried_def)
  next
    case (Some v)
    from old_caps_lookup_some [of ?g ?ts Map.empty h v] Some
    obtain t where t: "t \<in> set ?ts" "fst (capital_hex ?g t) = Some h" "v = cap_info t"
      unfolding oc by auto
    from t(1) obtain k where k: "k < length ?ts" "t = ?ts ! k" by (auto simp: in_set_conv_nth)
    from t(2) k(2) have ck: "cap k = Some h" by (simp add: cap_def)
    with h have "k \<noteq> i" "k \<noteq> j" by auto
    moreover from mem [OF ck] h
    have "set (t_hexes (?ts ! k)) \<inter> set (t_hexes t') \<noteq> {}" by blast
    ultimately have "t_owner (?ts ! k) \<noteq> t_owner t'" using others k(1) by blast
    then show ?thesis by (simp add: G_def carried_def Some t(3) k(2) cap_info_def)
  qed
  have disj: "set_option (cap i) \<inter> set_option (cap j) = {}"
  proof (rule ccontr)
    assume "set_option (cap i) \<inter> set_option (cap j) \<noteq> {}"
    then obtain c where "cap i = Some c" "cap j = Some c"
      by (cases "cap i"; cases "cap j") auto
    from uniq [OF ij(1) this(1) ij(2) this(2)] ij(3) show False by simp
  qed
  have "sum G (set (t_hexes t')) = sum G (set_option (cap i) \<union> set_option (cap j))"
    by (rule sum.mono_neutral_right) (use pi(1) pj(1) G0 in auto)
  also have "\<dots> = sum G (set_option (cap i)) + sum G (set_option (cap j))"
    by (rule sum.union_disjoint) (simp_all add: disj)
  finally show ?thesis unfolding gold pi(2) pj(2) .
qed

theorem merge_conserves_gold_witness:
  "move_unit lone_state (0, 1) (0, 2) =
     Some (True, refresh_territories lone_mid Map.empty (Some (0, 1))) \<and>
   map t_hexes (territories lone_mid) = [[(0, 0), (0, 1)], [(0, 3)]] \<and>
   map gold (territories lone_mid) = [5, 0] \<and>
   map t_hexes (territories (refresh_territories lone_mid Map.empty (Some (0, 1)))) =
     [[(0, 0), (0, 1), (0, 2), (0, 3)]] \<and>
   map gold (territories (refresh_territories lone_mid Map.empty (Some (0, 1)))) = [5] \<and>
   move_unit merge_state (0, 1) (0, 2) =
     Some (True, refresh_territories merge_mid Map.empty (Some (0, 1))) \<and>
   map gold (territories merge_mid) = [3, 4] \<and>
   map t_hexes (territories (refresh_territories merge_mid Map.empty (Some (0, 1)))) =
     [[(0, 0), (0, 1), (0, 2), (0, 3), (0, 4)]] \<and>
   map gold (territories (refresh_territories merge_mid Map.empty (Some (0, 1)))) = [7]"
proof -
  let ?s' = "refresh_territories lone_mid Map.empty (Some (0, 1))"
  have mv: "move_unit lone_state (0, 1) (0, 2) = Some (True, ?s')"
    by (simp add: move_unit_def lone_mid_def lone_state_def single_state_def Let_def land_hex_def
        blank_hex_def current_player_def has_combat_unit_def get_neighbors_def
        NEIGHBOR_DIRS_EVEN_def in_grid_def get_relative_power_def defense_power_def upd_hex_def)
  have h: "map t_hexes (territories lone_mid) = [[(0, 0), (0, 1)], [(0, 3)]]"
    and g: "map gold (territories lone_mid) = [5, 0]"
    by (simp_all add: lone_mid_def lone_state_def single_state_def)
  have L: "map t_hexes (territories ?s') = [[(0, 0), (0, 1), (0, 2), (0, 3)]]"
    and O: "map t_owner (territories ?s') = [0]"
    by code_simp+
  then obtain t' where t': "territories ?s' = [t']"
    and h': "t_hexes t' = [(0, 0), (0, 1), (0, 2), (0, 3)]" and o': "t_owner t' = 0"
    by (auto simp: map_eq_Cons_conv)
  have len: "length (territories lone_mid) = 2"
    by (simp add: lone_mid_def lone_state_def single_state_def)
  have ts: "territories lone_mid ! 0 =
        \<lparr>t_hexes = [(0, 0), (0, 1)], t_owner = 0, gold = 5, capital_ref = Some (0, 0)\<rparr>"
      "territories lone_mid ! Suc 0 =
        \<lparr>t_hexes = [(0, 3)], t_owner = 0, gold = 0, capital_ref = None\<rparr>"
    by (simp_all add: lone_mid_def lone_state_def single_state_def)
  have c1: "fst (capital_hex (grid lone_mid) (territories lone_mid ! 0)) = Some (0, 0)"
    by (simp add: ts capital_hex_def)
  have "gold t' = gold (territories lone_mid ! 0) + gold (territories lone_mid ! Suc 0)"
    by (rule merge_conserves_gold [where s = lone_mid and i = 0 and j = "Suc 0"
          and capital_avoid = Map.empty and merge_priority_pos = "Some (0, 1)"])
      (simp_all add: len c1 t' h' o' h less_Suc_eq numeral_2_eq_2, simp_all add: ts)
  then have "gold t' = 5" by (simp add: ts)
  with t' have 3: "map gold (territories ?s') = [5]" by simp
  let ?m' = "refresh_territories merge_mid Map.empty (Some (0, 1))"
  have mv2: "move_unit merge_state (0, 1) (0, 2) = Some (True, ?m')"
    by (simp add: move_unit_def merge_mid_def merge_state_def Let_def land_hex_def blank_hex_def
        current_player_def has_combat_unit_def get_neighbors_def NEIGHBOR_DIRS_EVEN_def
        in_grid_def get_relative_power_def defense_power_def upd_hex_def)
  have g2: "map gold (territories merge_mid) = [3, 4]"
    by (simp add: merge_mid_def merge_state_def)
  have L2: "map t_hexes (territories ?m') = [[(0, 0), (0, 1), (0, 2), (0, 3), (0, 4)]]"
    and O2: "map t_owner (territories ?m') = [0]"
    by code_simp+
  then obtain u' where u': "territories ?m' = [u']"
    and uh: "t_hexes u' = [(0, 0), (0, 1), (0, 2), (0, 3), (0, 4)]" and uo: "t_owner u' = 0"
    by (auto simp: map_eq_Cons_conv)
  have len2: "length (territories merge_mid) = 2" by (simp add: merge_mid_def merge_state_def)
  have hm: "map t_hexes (territories merge_mid) = [[(0, 0), (0, 1)], [(0, 3), (0, 4)]]"
    by (simp add: merge_mid_def merge_state_def)
  have ms: "territories merge_mid ! 0 =
        \<lparr>t_hexes = [(0, 0), (0, 1)], t_owner = 0, gold = 3, capital_ref = Some (0, 0)\<rparr>"
      "territories merge_mid ! Suc 0 =
        \<lparr>t_hexes = [(0, 3), (0, 4)], t_owner = 0, gold = 4, capital_ref = Some (0, 4)\<rparr>"
    by (simp_all add: merge_mid_def merge_state_def)
  have "gold u' = gold (territories merge_mid ! 0) + gold (territories merge_mid ! Suc 0)"
    by (rule merge_conserves_gold [where s = merge_mid and i = 0 and j = "Suc 0"
          and capital_avoid = Map.empty and merge_priority_pos = "Some (0, 1)"])
      (simp_all add: len2 u' uh uo hm less_Suc_eq numeral_2_eq_2,
        simp_all add: ms capital_hex_def)
  then have "gold u' = 7" by (simp add: ms)
  with u' have 4: "map gold (territories ?m') = [7]" by simp
  from mv h g L 3 mv2 g2 L2 4 show ?thesis by blast
qed

text \<open>The run from the state that \<open>setup_random_map\<close> leaves: both territories hold 10
  gold; the refresh that \<open>start_turn\<close> ends with empties the treasury of the single cell;
  the larger territory buys a peasant, which captures the linking cell; the merged treasury
  is 0 = 0 + 0.\<close>

lemma setup_trace:
  "map gold (territories fresh_state) = [10, 10] \<and>
   map gold (territories (refresh_territories fresh_state Map.empty None)) = [10, 0] \<and>
   fst (the (buy_peasant (refresh_territories fresh_state Map.empty None) 0 (0, 1))) \<and>
   map gold (territories (snd (the
     (buy_peasant (refresh_territories fresh_state Map.empty None) 0 (0, 1))))) = [0, 0] \<and>
   fst (the (move_unit (snd (the
     (buy_peasant (refresh_territories fresh_state Map.empty None) 0 (0, 1)))) (0, 1) (0, 2))) \<and>
   map gold (territories (snd (the (move_unit (snd (the
     (buy_peasant (refresh_territories fresh_state Map.empty None) 0 (0, 1)))) (0, 1) (0, 2))))) =
     [0]"
  by code_simp

text \<open>The hypothesis on a territory without a capital is needed: if the capture is made
  on the state of \<open>setup_random_map\<close> itself, with no \<open>start_turn\<close> in between, the 10 gold
  of the single cell are not carried over.\<close>

lemma treasury_without_capital_not_carried:
  "fst (the (move_unit single_state (0, 1) (0, 2))) \<and>
   map t_owner (territories single_state) = [0, 0] \<and>
   map t_hexes (territories single_state) = [[(0, 0), (0, 1)], [(0, 3)]] \<and>
   map gold (territories single_state) = [0, 10] \<and>
   map t_owner (territories (snd (the (move_unit single_state (0, 1) (0, 2))))) = [0] \<and>
   map t_hexes (territories (snd (the (move_unit single_state (0, 1) (0, 2))))) =
     [[(0, 0), (0, 1), (0, 2), (0, 3)]] \<and>
   map gold (territories (snd (the (move_unit single_state (0, 1) (0, 2))))) = [0] \<and>
   gold (territories (snd (the (move_unit single_state (0, 1) (0, 2)))) ! 0) \<noteq>
     gold (territories single_state ! 0) + gold (territories single_state ! 1)"
  by code_simp

section \<open>Alpha-beta search against minimax\<close>

text \<open>The equations of \<open>alphabeta\<close> and \<open>minimax\<close> are unfolded by hand, one node at a
  time.\<close>

declare minimax.simps [simp del] alphabeta.simps [simp del]

subsection \<open>Clipping to a window\<close>

lemma clip_max: "a \<le> b \<Longrightarrow> clip a b (max x y) = max (clip a b x) (clip a b y)"
  by (simp add: clip_def max_def min_def)

lemma clip_min: "a \<le> b \<Longrightarrow> clip a b (min x y) = min (clip a b x) (clip a b y)"
  by (simp add: clip_def max_def min_def)

lemma clip_raise: "w \<le> x \<Longrightarrow> w \<le> b \<Longrightarrow> clip (max a w) b x = clip a b x"
  by (simp add: clip_def max_def min_def)

lemma clip_lower: "x \<le> w \<Longrightarrow> a \<le> w \<Longrightarrow> clip a (min b w) x = clip a b x"
  by (simp add: clip_def max_def min_def)

lemma clip_fold_max_cong:
  "a \<le> b \<Longrightarrow> clip a b s = clip a b s' \<Longrightarrow>
   clip a b (fold max vs s) = clip a b (fold max vs s')"
proof (induction vs arbitrary: s s')
  case Nil
  then show ?case by simp
next
  case (Cons v vs)
  from Cons.prems have "clip a b (max v s) = clip a b (max v s')"
    by (simp add: clip_max)
  from Cons.IH [OF Cons.prems(1) this] show ?case by simp
qed

lemma clip_fold_min_cong:
  "a \<le> b \<Longrightarrow> clip a b s = clip a b s' \<Longrightarrow>
   clip a b (fold min vs s) = clip a b (fold min vs s')"
proof (induction vs arbitrary: s s')
  case Nil
  then show ?case by simp
next
  case (Cons v vs)
  from Cons.prems have "clip a b (min v s) = clip a b (min v s')"
    by (simp add: clip_min)
  from Cons.IH [OF Cons.prems(1) this] show ?case by simp
qed

lemma fold_max_ge: "s \<le> fold max vs (s::int)"
proof (induction vs arbitrary: s)
  case Nil
  show ?case by simp
next
  case (Cons v vs)
  have "s \<le> max v s" by simp
  also have "\<dots> \<le> fold max vs (max v s)" by (rule Cons.IH)
  finally show ?case by simp
qed

lemma fold_min_le: "fold min vs (s::int) \<le> s"
proof (induction vs arbitrary: s)
  case Nil
  show ?case by simp
next
  case (Cons v vs)
  have "fold min vs (min v s) \<le> min v s" by (rule Cons.IH)
  also have "\<dots> \<le> s" by simp
  finally show ?case by simp
qed

lemma fold_max_Max: "vs \<noteq> [] \<Longrightarrow> fold max vs (s::int) = max s (Max (set vs))"
proof -
  assume ne: "vs \<noteq> []"
  have "fold max vs s = Max (set (s # vs))" by (simp only: Max.set_eq_fold)
  also have "\<dots> = max s (Max (set vs))" using ne by simp
  finally show ?thesis .
qed

lemma fold_min_Min: "vs \<noteq> [] \<Longrightarrow> fold min vs (s::int) = min s (Min (set vs))"
proof -
  assume ne: "vs \<noteq> []"
  have "fold min vs s = Min (set (s # vs))" by (simp only: Min.set_eq_fold)
  also have "\<dots> = min s (Min (set vs))" using ne by simp
  finally show ?thesis .
qed

subsection \<open>Totality and bounds of the reference\<close>

lemma reset_moves_dims:
  "reset_moves npid ps g saved = (g1, sv) \<Longrightarrow> width g1 = width g \<and> height g1 = height g"
proof (induction ps arbitrary: g saved)
  case Nil
  then show ?case by simp
next
  case (Cons p ps)
  show ?case
  proof (cases "owner (hexes g p) = npid \<and> has_combat_unit (hexes g p)")
    case True
    with Cons.prems have "reset_moves npid ps (upd_hex p (\<lambda>x. x\<lparr>can_move := True\<rparr>) g)
             (saved @ [(p, can_move (hexes g p))]) = (g1, sv)" by simp
    from Cons.IH [OF this] show ?thesis by simp
  next
    case False
    with Cons.prems have "reset_moves npid ps g saved = (g1, sv)" by auto
    from Cons.IH [OF this] show ?thesis .
  qed
qed

lemma fast_apply_dims:
  "fast_apply g pidx n a = Some (nidx, g1, u) \<Longrightarrow> width g1 = width g \<and> height g1 = height g"
proof (cases a)
  case (ACT_CAPTURE f t)
  assume "fast_apply g pidx n a = Some (nidx, g1, u)"
  with ACT_CAPTURE show ?thesis by (auto simp: Let_def split: if_splits)
next
  case (ACT_MOVE f t)
  assume "fast_apply g pidx n a = Some (nidx, g1, u)"
  with ACT_MOVE show ?thesis by (auto simp: Let_def split: if_splits)
next
  case ACT_END_TURN
  assume "fast_apply g pidx n a = Some (nidx, g1, u)"
  with ACT_END_TURN show ?thesis
    by (auto simp: Let_def split: if_splits prod.splits dest: reset_moves_dims)
qed

lemma fast_apply_keys:
  "fast_apply g pidx n a = Some (nidx, g1, u) \<Longrightarrow> grid_keys g1 = grid_keys g"
  by (drule fast_apply_dims) (simp add: grid_keys_def)

lemma eval_hex_count_bound: "\<bar>eval_hex_count g p\<bar> \<le> int (length (grid_keys g))"
proof -
  have "length (filter P (grid_keys g)) \<le> length (grid_keys g)" for P
    by (rule length_filter_le)
  then have "int (length (filter P (grid_keys g))) \<le> int (length (grid_keys g))" for P
    by simp
  from this [of "\<lambda>h. is_land (hexes g h) \<and> owner (hexes g h) = p"]
    this [of "\<lambda>h. is_land (hexes g h) \<and> owner (hexes g h) \<noteq> p \<and> owner (hexes g h) \<ge> 0"]
  show ?thesis unfolding eval_hex_count_def by linarith
qed

lemma minimax_children_length:
  "minimax_children g pidx n mp d acts = Some vs \<Longrightarrow> length vs = length acts"
proof (induction acts arbitrary: vs)
  case Nil
  then show ?case by simp
next
  case (Cons a acts)
  from Cons.prems obtain v vs' where
    "minimax_children g pidx n mp d acts = Some vs'" "vs = v # vs'"
    by (auto split: option.splits prod.splits)
  with Cons.IH show ?case by simp
qed

lemma minimax_total:
  "n \<noteq> 0 \<Longrightarrow> \<exists>v. minimax g pidx n mp d = Some v"
  "n \<noteq> 0 \<Longrightarrow> set acts \<subseteq> set (get_search_actions g pidx) \<Longrightarrow>
     \<exists>vs. minimax_children g pidx n mp d acts = Some vs"
proof (induction g pidx n mp d and g pidx n mp d acts rule: minimax_minimax_children.induct)
  case (1 g pidx n mp d)
  show ?case
  proof (cases "d \<le> 0")
    case True
    then show ?thesis by (simp add: minimax.simps)
  next
    case False
    from "1.IH" [OF False "1.prems"] obtain vs where
      "minimax_children g pidx n mp d (get_search_actions g pidx) = Some vs" by blast
    with False show ?thesis by (simp add: minimax.simps)
  qed
next
  case (2 g pidx n mp d)
  show ?case by simp
next
  case (3 g pidx n mp d a acts)
  from "3.prems" have a: "a \<in> set (get_search_actions g pidx)"
    and sub: "set acts \<subseteq> set (get_search_actions g pidx)" by auto
  from fast_apply_legal [OF a "3.prems"(1)] obtain nidx g1 u where
    ap: "fast_apply g pidx n a = Some (nidx, g1, u)" by blast
  from "3.IH"(1) [OF ap refl refl "3.prems"(1)] obtain v where
    v: "minimax g1 nidx n mp (d - 1) = Some v" by blast
  from "3.IH"(2) [OF ap refl refl v "3.prems"(1) sub] obtain vs where
    vs: "minimax_children g pidx n mp d acts = Some vs" by blast
  from ap v vs show ?case by simp
qed

lemma minimax_bound:
  "minimax g pidx n mp d = Some v \<Longrightarrow> \<bar>v\<bar> \<le> int (length (grid_keys g))"
  "minimax_children g pidx n mp d acts = Some vs \<Longrightarrow>
     \<forall>v \<in> set vs. \<bar>v\<bar> \<le> int (length (grid_keys g))"
proof (induction g pidx n mp d and g pidx n mp d acts arbitrary: v and vs
    rule: minimax_minimax_children.induct)
  case (1 g pidx n mp d)
  show ?case
  proof (cases "d \<le> 0")
    case True
    with "1.prems" have "v = eval_hex_count g mp" by (simp add: minimax.simps)
    then show ?thesis by (simp add: eval_hex_count_bound)
  next
    case False
    with "1.prems" obtain vs where
      vs: "minimax_children g pidx n mp d (get_search_actions g pidx) = Some vs"
      and v: "v = (if pidx = mp then Max (set vs) else Min (set vs))"
      by (auto simp: minimax.simps split: option.splits)
    from minimax_children_length [OF vs] have ne: "vs \<noteq> []"
      by (auto simp: get_search_actions_def)
    then have "Max (set vs) \<in> set vs" "Min (set vs) \<in> set vs" by simp_all
    with v have "v \<in> set vs" by simp
    with "1.IH" [OF False vs] show ?thesis by blast
  qed
next
  case (2 g pidx n mp d)
  then show ?case by simp
next
  case (3 g pidx n mp d a acts)
  from "3.prems" obtain nidx g1 u v vs' where
    ap: "fast_apply g pidx n a = Some (nidx, g1, u)"
    and v: "minimax g1 nidx n mp (d - 1) = Some v"
    and vs': "minimax_children g pidx n mp d acts = Some vs'"
    and vs: "vs = v # vs'"
    by (auto split: option.splits prod.splits)
  from "3.IH"(1) [OF ap refl refl v] fast_apply_keys [OF ap]
  have "\<bar>v\<bar> \<le> int (length (grid_keys g))" by simp
  moreover from "3.IH"(2) [OF ap refl refl v vs']
  have "\<forall>v \<in> set vs'. \<bar>v\<bar> \<le> int (length (grid_keys g))" .
  ultimately show ?case using vs by simp
qed

subsection \<open>One step of the pruning loops\<close>

lemma clip_top: "a \<le> b \<Longrightarrow> b \<le> x \<Longrightarrow> clip a b x = b"
  by (simp add: clip_def max_def min_def)

lemma clip_bot: "a \<le> b \<Longrightarrow> x \<le> a \<Longrightarrow> clip a b x = a"
  by (simp add: clip_def max_def min_def)

lemma clip_top_iff: "a < b \<Longrightarrow> clip a b x = b \<longleftrightarrow> b \<le> x"
  by (auto simp: clip_def max_def min_def)

lemma clip_bot_iff: "a < b \<Longrightarrow> clip a b x = a \<longleftrightarrow> x \<le> a"
  by (auto simp: clip_def max_def min_def)

lemma ab_max_break:
  assumes ab: "a < b" and c: "clip a b r1 = clip a b v1" and brk: "b \<le> max a (max r1 val)"
  shows "clip a b (max r1 val) = clip a b (fold max vs (max v1 val))"
proof -
  from ab brk have "b \<le> max r1 val" by simp
  then have l: "clip a b (max r1 val) = b" using ab by (simp add: clip_top)
  from ab c have "clip a b (max r1 val) = clip a b (max v1 val)" by (simp add: clip_max)
  with l have "clip a b (max v1 val) = b" by simp
  with ab have "b \<le> max v1 val" by (simp add: clip_top_iff)
  also have "\<dots> \<le> fold max vs (max v1 val)" by (rule fold_max_ge)
  finally have "clip a b (fold max vs (max v1 val)) = b" using ab by (simp add: clip_top)
  with l show ?thesis by simp
qed

lemma ab_max_continue:
  assumes ab: "a < b" and c: "clip a b r1 = clip a b v1" and nb: "max a (max r1 val) < b"
    and le: "max r1 val \<le> r"
    and ih: "clip (max a (max r1 val)) b r = clip (max a (max r1 val)) b (fold max vs (max r1 val))"
  shows "clip a b r = clip a b (fold max vs (max v1 val))"
proof -
  from nb have wb: "max r1 val \<le> b" by simp
  have "clip a b r = clip (max a (max r1 val)) b r" using le wb by (simp add: clip_raise)
  also have "\<dots> = clip (max a (max r1 val)) b (fold max vs (max r1 val))" by (rule ih)
  also have "\<dots> = clip a b (fold max vs (max r1 val))"
    using fold_max_ge [of "max r1 val" vs] wb by (simp add: clip_raise)
  also have "\<dots> = clip a b (fold max vs (max v1 val))"
  proof (rule clip_fold_max_cong)
    show "a \<le> b" using ab by simp
    show "clip a b (max r1 val) = clip a b (max v1 val)" using ab c by (simp add: clip_max)
  qed
  finally show ?thesis .
qed

lemma ab_min_break:
  assumes ab: "a < b" and c: "clip a b r1 = clip a b v1" and brk: "min b (min r1 val) \<le> a"
  shows "clip a b (min r1 val) = clip a b (fold min vs (min v1 val))"
proof -
  from ab brk have "min r1 val \<le> a" by simp
  then have l: "clip a b (min r1 val) = a" using ab by (simp add: clip_bot)
  from ab c have "clip a b (min r1 val) = clip a b (min v1 val)" by (simp add: clip_min)
  with l have "clip a b (min v1 val) = a" by simp
  with ab have "min v1 val \<le> a" by (simp add: clip_bot_iff)
  with fold_min_le [of vs "min v1 val"] have "fold min vs (min v1 val) \<le> a"
    by (rule order_trans)
  then have "clip a b (fold min vs (min v1 val)) = a" using ab by (simp add: clip_bot)
  with l show ?thesis by simp
qed

lemma ab_min_continue:
  assumes ab: "a < b" and c: "clip a b r1 = clip a b v1" and nb: "a < min b (min r1 val)"
    and le: "r \<le> min r1 val"
    and ih: "clip a (min b (min r1 val)) r = clip a (min b (min r1 val)) (fold min vs (min r1 val))"
  shows "clip a b r = clip a b (fold min vs (min v1 val))"
proof -
  from nb have wb: "a \<le> min r1 val" by simp
  have "clip a b r = clip a (min b (min r1 val)) r" using le wb by (simp add: clip_lower)
  also have "\<dots> = clip a (min b (min r1 val)) (fold min vs (min r1 val))" by (rule ih)
  also have "\<dots> = clip a b (fold min vs (min r1 val))"
    using fold_min_le [of vs "min r1 val"] wb by (simp add: clip_lower)
  also have "\<dots> = clip a b (fold min vs (min v1 val))"
  proof (rule clip_fold_min_cong)
    show "a \<le> b" using ab by simp
    show "clip a b (min r1 val) = clip a b (min v1 val)" using ab c by (simp add: clip_min)
  qed
  finally show ?thesis .
qed

lemma node_max:
  assumes "- INFTY \<le> a" "a < b" "vs \<noteq> []" "clip a b r = clip a b (fold max vs (- INFTY))"
  shows "clip a b r = clip a b (Max (set vs))"
proof -
  have "clip a b (fold max vs (- INFTY)) = clip a b (max (- INFTY) (Max (set vs)))"
    using assms(3) by (simp add: fold_max_Max)
  also have "\<dots> = max (clip a b (- INFTY)) (clip a b (Max (set vs)))"
    using assms(2) by (simp add: clip_max)
  also have "clip a b (- INFTY) = a" using assms(1,2) by (simp add: clip_bot)
  also have "max a (clip a b (Max (set vs))) = clip a b (Max (set vs))"
    by (simp add: clip_def)
  finally show ?thesis using assms(4) by simp
qed

lemma node_min:
  assumes "b \<le> INFTY" "a < b" "vs \<noteq> []" "clip a b r = clip a b (fold min vs INFTY)"
  shows "clip a b r = clip a b (Min (set vs))"
proof -
  have "clip a b (fold min vs INFTY) = clip a b (min INFTY (Min (set vs)))"
    using assms(3) by (simp add: fold_min_Min)
  also have "\<dots> = min (clip a b INFTY) (clip a b (Min (set vs)))"
    using assms(2) by (simp add: clip_min)
  also have "clip a b INFTY = b" using assms(1,2) by (simp add: clip_top)
  also have "min b (clip a b (Min (set vs))) = clip a b (Min (set vs))"
    using assms(2) by (simp add: clip_def)
  finally show ?thesis using assms(4) by simp
qed

subsection \<open>The search inside a window\<close>

text \<open>Inside a window from \<open>a\<close> to \<open>b\<close> within the bounds \<open>- INF\<close> and \<open>INF\<close>, the
  search returns, restores the grid, and its result agrees with the minimax value after
  clipping both to the window.\<close>

lemma alphabeta_clip:
  "n \<noteq> 0 \<Longrightarrow> - INFTY \<le> a \<Longrightarrow> a < b \<Longrightarrow> b \<le> INFTY \<Longrightarrow>
     \<exists>r v. alphabeta g pidx n mp d a b = Some (r, g) \<and> minimax g pidx n mp d = Some v \<and>
       clip a b r = clip a b v"
  "n \<noteq> 0 \<Longrightarrow> - INFTY \<le> a \<Longrightarrow> a < b \<Longrightarrow> b \<le> INFTY \<Longrightarrow>
   set acts \<subseteq> set (get_search_actions g pidx) \<Longrightarrow>
     \<exists>r vs. ab_max g pidx n mp d a b val acts = Some (r, g) \<and>
       minimax_children g pidx n mp d acts = Some vs \<and> val \<le> r \<and>
       clip a b r = clip a b (fold max vs val)"
  "n \<noteq> 0 \<Longrightarrow> - INFTY \<le> a \<Longrightarrow> a < b \<Longrightarrow> b \<le> INFTY \<Longrightarrow>
   set acts \<subseteq> set (get_search_actions g pidx) \<Longrightarrow>
     \<exists>r vs. ab_min g pidx n mp d a b val acts = Some (r, g) \<and>
       minimax_children g pidx n mp d acts = Some vs \<and> r \<le> val \<and>
       clip a b r = clip a b (fold min vs val)"
proof (induction g pidx n mp d a b and g pidx n mp d a b val acts and g pidx n mp d a b val acts
    rule: alphabeta_ab_max_ab_min.induct)
  case (1 g pidx n mp d a b)
  show ?case
  proof (cases "d \<le> 0")
    case True
    then show ?thesis by (simp add: alphabeta.simps minimax.simps)
  next
    case False
    show ?thesis
    proof (cases "pidx = mp")
      case True
      from "1.IH"(1) [OF False True "1.prems" subset_refl] obtain r vs where
        r: "ab_max g pidx n mp d a b (- INFTY) (get_search_actions g pidx) = Some (r, g)"
        and vs: "minimax_children g pidx n mp d (get_search_actions g pidx) = Some vs"
        and c: "clip a b r = clip a b (fold max vs (- INFTY))" by blast
      from minimax_children_length [OF vs] have ne: "vs \<noteq> []"
        by (auto simp: get_search_actions_def)
      from node_max [OF "1.prems"(2,3) ne c] have "clip a b r = clip a b (Max (set vs))" .
      with r vs False True show ?thesis by (simp add: alphabeta.simps minimax.simps)
    next
      case neq: False
      from "1.IH"(2) [OF False neq "1.prems" subset_refl] obtain r vs where
        r: "ab_min g pidx n mp d a b INFTY (get_search_actions g pidx) = Some (r, g)"
        and vs: "minimax_children g pidx n mp d (get_search_actions g pidx) = Some vs"
        and c: "clip a b r = clip a b (fold min vs INFTY)" by blast
      from minimax_children_length [OF vs] have ne: "vs \<noteq> []"
        by (auto simp: get_search_actions_def)
      from node_min [OF "1.prems"(4,3) ne c] have "clip a b r = clip a b (Min (set vs))" .
      with r vs False neq show ?thesis by (simp add: alphabeta.simps minimax.simps)
    qed
  qed
next
  case (2 g pidx n mp d a b val)
  show ?case by simp
next
  case (3 g pidx n mp d a b val action acts)
  from "3.prems" have act: "action \<in> set (get_search_actions g pidx)"
    and sub: "set acts \<subseteq> set (get_search_actions g pidx)" by auto
  note basic = "3.prems"(1-4)
  from fast_apply_legal [OF act "3.prems"(1)] obtain nidx g1 u where
    ap: "fast_apply g pidx n action = Some (nidx, g1, u)" by blast
  from "3.IH"(1) [OF ap refl refl basic] obtain r1 v1 where
    ab: "alphabeta g1 nidx n mp (d - 1) a b = Some (r1, g1)"
    and mm: "minimax g1 nidx n mp (d - 1) = Some v1"
    and c1: "clip a b r1 = clip a b v1" by blast
  from fast_roundtrip [OF ap] have un: "fast_undo g1 u = Some g" .
  define val' where "val' = (if val < r1 then r1 else val)"
  define a' where "a' = (if a < val' then val' else a)"
  have val': "val' = max r1 val" by (simp add: val'_def max_def)
  have a': "a' = max a (max r1 val)" by (simp add: a'_def val' max_def)
  have step: "ab_max g pidx n mp d a b val (action # acts) =
      (if b \<le> a' then Some (val', g) else ab_max g pidx n mp d a' b val' acts)"
    using ap ab un unfolding val'_def a'_def by (simp add: Let_def)
  show ?case
  proof (cases "b \<le> a'")
    case True
    from step True have res: "ab_max g pidx n mp d a b val (action # acts) = Some (val', g)"
      by simp
    from minimax_total(2) [OF "3.prems"(1) sub] obtain vs where
      vs: "minimax_children g pidx n mp d acts = Some vs" by blast
    from ap mm vs have ch: "minimax_children g pidx n mp d (action # acts) = Some (v1 # vs)"
      by simp
    from True have "b \<le> max a (max r1 val)" by (simp only: a')
    from ab_max_break [OF basic(3) c1 this]
    have "clip a b val' = clip a b (fold max (v1 # vs) val)" by (simp add: val')
    moreover have "val \<le> val'" by (simp add: val')
    ultimately show ?thesis using res ch by simp
  next
    case False
    from step False
    have res: "ab_max g pidx n mp d a b val (action # acts) =
                 ab_max g pidx n mp d a' b val' acts"
      by simp
    have lo: "- INFTY \<le> a'" using basic(2) by (simp add: a')
    have hi: "a' < b" using False by simp
    from "3.IH"(2) [OF ap refl refl ab refl un val'_def a'_def False basic(1) lo hi basic(4) sub]
    obtain r vs where
      r: "ab_max g pidx n mp d a' b val' acts = Some (r, g)"
      and vs: "minimax_children g pidx n mp d acts = Some vs"
      and le: "val' \<le> r"
      and c: "clip a' b r = clip a' b (fold max vs val')" by blast
    from ap mm vs have ch: "minimax_children g pidx n mp d (action # acts) = Some (v1 # vs)"
      by simp
    from hi have nb: "max a (max r1 val) < b" by (simp only: a')
    from le have le': "max r1 val \<le> r" by (simp only: val')
    from c have ih: "clip (max a (max r1 val)) b r =
        clip (max a (max r1 val)) b (fold max vs (max r1 val))" by (simp only: a' val')
    from ab_max_continue [OF basic(3) c1 nb le' ih]
    have "clip a b r = clip a b (fold max (v1 # vs) val)" by simp
    moreover from le have "val \<le> r" by (simp add: val')
    ultimately show ?thesis using res r ch by simp
  qed
next
  case (4 g pidx n mp d a b val)
  show ?case by simp
next
  case (5 g pidx n mp d a b val action acts)
  from "5.prems" have act: "action \<in> set (get_search_actions g pidx)"
    and sub: "set acts \<subseteq> set (get_search_actions g pidx)" by auto
  note basic = "5.prems"(1-4)
  from fast_apply_legal [OF act "5.prems"(1)] obtain nidx g1 u where
    ap: "fast_apply g pidx n action = Some (nidx, g1, u)" by blast
  from "5.IH"(1) [OF ap refl refl basic] obtain r1 v1 where
    ab: "alphabeta g1 nidx n mp (d - 1) a b = Some (r1, g1)"
    and mm: "minimax g1 nidx n mp (d - 1) = Some v1"
    and c1: "clip a b r1 = clip a b v1" by blast
  from fast_roundtrip [OF ap] have un: "fast_undo g1 u = Some g" .
  define val' where "val' = (if r1 < val then r1 else val)"
  define b' where "b' = (if val' < b then val' else b)"
  have val': "val' = min r1 val" by (simp add: val'_def min_def)
  have b': "b' = min b (min r1 val)" by (simp add: b'_def val' min_def)
  have step: "ab_min g pidx n mp d a b val (action # acts) =
      (if b' \<le> a then Some (val', g) else ab_min g pidx n mp d a b' val' acts)"
    using ap ab un unfolding val'_def b'_def by (simp add: Let_def)
  show ?case
  proof (cases "b' \<le> a")
    case True
    from step True have res: "ab_min g pidx n mp d a b val (action # acts) = Some (val', g)"
      by simp
    from minimax_total(2) [OF "5.prems"(1) sub] obtain vs where
      vs: "minimax_children g pidx n mp d acts = Some vs" by blast
    from ap mm vs have ch: "minimax_children g pidx n mp d (action # acts) = Some (v1 # vs)"
      by simp
    from True have "min b (min r1 val) \<le> a" by (simp only: b')
    from ab_min_break [OF basic(3) c1 this]
    have "clip a b val' = clip a b (fold min (v1 # vs) val)" by (simp add: val')
    moreover have "val' \<le> val" by (simp add: val')
    ultimately show ?thesis using res ch by simp
  next
    case False
    from step False
    have res: "ab_min g pidx n mp d a b val (action # acts) =
                 ab_min g pidx n mp d a b' val' acts"
      by simp
    have hi: "b' \<le> INFTY" using basic(4) by (simp add: b')
    have lo: "a < b'" using False by simp
    from "5.IH"(2) [OF ap refl refl ab refl un val'_def b'_def False basic(1,2) lo hi sub]
    obtain r vs where
      r: "ab_min g pidx n mp d a b' val' acts = Some (r, g)"
      and vs: "minimax_children g pidx n mp d acts = Some vs"
      and le: "r \<le> val'"
      and c: "clip a b' r = clip a b' (fold min vs val')" by blast
    from ap mm vs have ch: "minimax_children g pidx n mp d (action # acts) = Some (v1 # vs)"
      by simp
    from lo have nb: "a < min b (min r1 val)" by (simp only: b')
    from le have le': "r \<le> min r1 val" by (simp only: val')
    from c have ih: "clip a (min b (min r1 val)) r =
        clip a (min b (min r1 val)) (fold min vs (min r1 val))" by (simp only: b' val')
    from ab_min_continue [OF basic(3) c1 nb le' ih]
    have "clip a b r = clip a b (fold min (v1 # vs) val)" by simp
    moreover from le have "r \<le> val" by (simp add: val')
    ultimately show ?thesis using res r ch by simp
  qed
qed

subsection \<open>The root loop\<close>

lemma root_step:
  "bs < I \<Longrightarrow> v < I \<Longrightarrow> clip bs I r = clip bs I v \<Longrightarrow> max r bs = max v bs"
  by (auto simp: clip_def max_def min_def split: if_splits)

lemma root_loop_minimax:
  assumes n: "n \<noteq> 0" and sz: "int (length (grid_keys g)) < INFTY"
  shows "- INFTY \<le> bs \<Longrightarrow> bs < INFTY \<Longrightarrow> set acts \<subseteq> set (get_search_actions g pid) \<Longrightarrow>
    \<exists>ba' vs. root_loop g pidx n mp d ba bs bs acts = Some ((ba', fold max vs bs), g) \<and>
      minimax_children g pidx n mp d acts = Some vs"
proof (induction acts arbitrary: ba bs)
  case Nil
  show ?case by simp
next
  case (Cons action acts)
  from Cons.prems have act: "action \<in> set (get_search_actions g pid)"
    and sub: "set acts \<subseteq> set (get_search_actions g pid)" by auto
  from fast_apply_legal [OF act n] obtain nidx g1 u where
    ap: "fast_apply g pidx n action = Some (nidx, g1, u)" by blast
  from alphabeta_clip(1) [OF n Cons.prems(1,2) order_refl] obtain r1 v1 where
    ab: "alphabeta g1 nidx n mp (d - 1) bs INFTY = Some (r1, g1)"
    and mm: "minimax g1 nidx n mp (d - 1) = Some v1"
    and c1: "clip bs INFTY r1 = clip bs INFTY v1" by blast
  from fast_roundtrip [OF ap] have un: "fast_undo g1 u = Some g" .
  from minimax_bound(1) [OF mm] fast_apply_keys [OF ap] sz have v1: "v1 < INFTY" by simp
  define bs' where "bs' = (if bs < r1 then r1 else bs)"
  define ba' where "ba' = (if bs < r1 then action else ba)"
  have step: "root_loop g pidx n mp d ba bs bs (action # acts) =
      root_loop g pidx n mp d ba' bs' bs' acts"
    using ap ab un unfolding bs'_def ba'_def by simp
  have "bs' = max r1 bs" by (simp add: bs'_def max_def)
  with root_step [OF Cons.prems(2) v1 c1] have bs': "bs' = max v1 bs" by simp
  have lo: "- INFTY \<le> bs'" using Cons.prems(1) by (simp add: bs')
  have hi: "bs' < INFTY" using Cons.prems(2) v1 by (simp add: bs')
  from Cons.IH [OF lo hi sub, of ba'] obtain ba'' vs where
    r: "root_loop g pidx n mp d ba' bs' bs' acts = Some ((ba'', fold max vs bs'), g)"
    and vs: "minimax_children g pidx n mp d acts = Some vs" by blast
  from ap mm vs have ch: "minimax_children g pidx n mp d (action # acts) = Some (v1 # vs)"
    by simp
  have "fold max (v1 # vs) bs = fold max vs bs'" by (simp add: bs')
  with step r ch show ?case by simp
qed

text \<open>Claim C8. For a fixed grid with fewer than \<open>INF\<close> = 100000 cells, a depth of at
  least 1 and at least one player, with the root player being the player to move and the
  clock never reaching the deadline, \<open>search_at_depth\<close> returns, leaves the grid as it
  found it, and its score is the value of the brute-force minimax without pruning over the
  same reduced action model: the same \<open>get_search_actions\<close>, the same \<open>fast_apply\<close>, the
  leaf evaluation \<open>eval_hex_count\<close> for the root player, and the maximum or the minimum
  at a node according to whether the player to move there is the root player, which changes
  only at the end-turn action.\<close>

theorem alphabeta_equals_minimax:
  assumes "1 \<le> depth" and "num_players \<noteq> 0" and "int (length (grid_keys g)) < INFTY"
  shows "\<exists>a score.
           search_at_depth g player_id num_players player_id depth = Some ((a, score), g) \<and>
           minimax g player_id num_players player_id depth = Some score"
proof -
  have lo: "- INFTY \<le> - INFTY" and hi: "- INFTY < INFTY" by (simp_all add: INFTY_def)
  from root_loop_minimax [OF assms(2,3) lo hi subset_refl] obtain a vs where
    r: "root_loop g player_id num_players player_id depth ACT_END_TURN (- INFTY) (- INFTY)
          (get_search_actions g player_id) = Some ((a, fold max vs (- INFTY)), g)"
    and vs: "minimax_children g player_id num_players player_id depth
          (get_search_actions g player_id) = Some vs" by blast
  from minimax_children_length [OF vs] have ne: "vs \<noteq> []"
    by (auto simp: get_search_actions_def)
  then have "Max (set vs) \<in> set vs" by simp
  with minimax_bound(2) [OF vs] have "\<bar>Max (set vs)\<bar> \<le> int (length (grid_keys g))" by blast
  with assms(3) have "- INFTY \<le> Max (set vs)" by simp
  with ne have "fold max vs (- INFTY) = Max (set vs)" by (simp add: fold_max_Max)
  with r have "search_at_depth g player_id num_players player_id depth =
      Some ((a, Max (set vs)), g)" by (simp add: search_at_depth_def)
  moreover from vs assms(1)
  have "minimax g player_id num_players player_id depth = Some (Max (set vs))"
    by (simp add: minimax.simps)
  ultimately show ?thesis by blast
qed

theorem alphabeta_equals_minimax_witness:
  "(1::int) \<le> 4 \<and> (2::int) \<noteq> 0 \<and> int (length (grid_keys duel_grid)) < INFTY \<and>
   (\<exists>a. search_at_depth duel_grid 0 2 0 4 = Some ((a, 3), duel_grid)) \<and>
   minimax duel_grid 0 2 0 4 = Some 3"
proof -
  have d: "(1::int) \<le> 4" and n: "(2::int) \<noteq> 0" by simp_all
  have sz: "int (length (grid_keys duel_grid)) < INFTY" by code_simp
  have mm: "minimax duel_grid 0 2 0 4 = Some 3" by code_simp
  from alphabeta_equals_minimax [OF d n sz, of 0] obtain a score where
    "search_at_depth duel_grid 0 2 0 4 = Some ((a, score), duel_grid)"
    "minimax duel_grid 0 2 0 4 = Some score" by blast
  with mm have "\<exists>a. search_at_depth duel_grid 0 2 0 4 = Some ((a, 3), duel_grid)" by simp
  with d n sz mm show ?thesis by blast
qed

end
